theory Spec2Isabelle
  imports Complex_Main
begin

text \<open>
  The segmented translation pipeline of Translate-It: the batch planner, the response
  parser and the streaming loop of \<^verbatim>\<open>BaseAIProvider\<close>, the payload construction of
  \<^verbatim>\<open>TranslationOrchestrator\<close>, and the stream-update processing and the replacement
  decision of \<^verbatim>\<open>TranslationUIManager\<close>. The first part embeds the source functions, the
  second part holds the notions and inputs of the statements, the third part the
  proofs.
\<close>

section \<open>JavaScript string primitives used by the pipeline\<close>

text \<open>
  A source string is a \<^typ>\<open>string\<close>; one \<^typ>\<open>char\<close> stands for one UTF-16 code unit
  below 256, so \<^const>\<open>length\<close> is the source's \<^verbatim>\<open>.length\<close>. The white space of
  \<^verbatim>\<open>\s\<close> and of \<^verbatim>\<open>String.prototype.trim\<close> in that range is TAB, LF, VT, FF, CR,
  SPACE and NBSP.
\<close>

definition is_space :: "char \<Rightarrow> bool" where
  "is_space c = (c = CHR 0x09 \<or> c = CHR 0x0A \<or> c = CHR 0x0B \<or> c = CHR 0x0C \<or> c = CHR 0x0D
     \<or> c = CHR '' '' \<or> c = CHR 0xA0)"

text \<open>\<^verbatim>\<open>s.trim()\<close>\<close>

definition trim :: "string \<Rightarrow> string" where
  "trim s = rev (dropWhile is_space (rev (dropWhile is_space s)))"

text \<open>
  \<^verbatim>\<open>s.split(/\s+/)\<close>: the pieces between the maximal runs of white space. A run at the
  start or at the end of the string leaves an empty piece there, and the empty string
  gives the single piece \<^verbatim>\<open>""\<close>. \<open>cur\<close> is the piece being read, reversed; \<open>inws\<close> says
  that the previous character was white space.
\<close>

fun split_go :: "string \<Rightarrow> bool \<Rightarrow> string \<Rightarrow> string list" where
  "split_go cur inws [] = [rev cur]"
| "split_go cur inws (c # cs) =
     (if is_space c then (if inws then split_go cur True cs else rev cur # split_go [] True cs)
      else split_go (c # cur) False cs)"

definition split_ws :: "string \<Rightarrow> string list" where
  "split_ws s = split_go [] False s"

text \<open>
  The number of matches of a global regular expression \<^verbatim>\<open>/[...]+/g\<close>: the number of
  maximal runs of characters of the class \<open>P\<close>. \<open>inrun\<close> says that the previous character
  was in the class.
\<close>

fun count_runs :: "(char \<Rightarrow> bool) \<Rightarrow> bool \<Rightarrow> string \<Rightarrow> nat" where
  "count_runs P inrun [] = 0"
| "count_runs P inrun (c # cs) =
     (if P c then (if inrun then 0 else 1) + count_runs P True cs else count_runs P False cs)"

text \<open>The class \<^verbatim>\<open>[.!?]\<close>.\<close>

definition is_terminator :: "char \<Rightarrow> bool" where
  "is_terminator c = (c = CHR ''.'' \<or> c = CHR ''!'' \<or> c = CHR ''?'')"

text \<open>
  \<^verbatim>\<open>Math.round\<close> rounds to the nearest integer, a half towards plus infinity. Every number
  the complexity score adds up is a multiple of one half far below \<open>2^53\<close>, which
  IEEE doubles represent exactly, so the rationals compute what the source computes.
\<close>

definition js_round :: "rat \<Rightarrow> int" where
  "js_round x = \<lfloor>x + 1 / 2\<rfloor>"

section \<open>Batch planning (BaseAIProvider)\<close>

text \<open>
  The argument of \<^verbatim>\<open>_calculateTextComplexity\<close>: a string, or anything else
  (\<^verbatim>\<open>null\<close>, \<^verbatim>\<open>undefined\<close>, a number, an object).
\<close>

datatype text_arg = NonString | Str string

text \<open>
  \<^verbatim>\<open>_calculateTextComplexity(text)\<close>. The guard \<^verbatim>\<open>!text || typeof text !== 'string'\<close> also
  catches the empty string, which is falsy.
\<close>

fun calculateTextComplexity :: "text_arg \<Rightarrow> nat" where
  "calculateTextComplexity NonString = 0"
| "calculateTextComplexity (Str text) =
     (if text = [] then 0
      else let len = length text;
               sentences = count_runs is_terminator False text;
               words = length (split_ws (trim text));
               complexity = min (of_nat len * (1 / 2)) 100;
               complexity = complexity + of_nat sentences * 2;
               complexity = complexity + min (of_nat words * (1 / 2)) 20
           in nat (js_round complexity))"

text \<open>\<^verbatim>\<open>_getTotalComplexity(texts)\<close>: a \<^verbatim>\<open>reduce\<close> from 0.\<close>

definition getTotalComplexity :: "string list \<Rightarrow> nat" where
  "getTotalComplexity texts = foldl (\<lambda>sum text. sum + calculateTextComplexity (Str text)) 0 texts"

text \<open>
  The loop variables of the two greedy loops: the closed batches, the batch being
  filled, and its running cost (complexity, or characters).
\<close>

record batch_acc =
  batches :: "string list list"
  currentBatch :: "string list"
  currentCost :: nat

definition init_acc :: batch_acc where
  "init_acc = \<lparr>batches = [], currentBatch = [], currentCost = 0\<rparr>"

text \<open>\<^verbatim>\<open>batches.push(currentBatch); currentBatch = []; current... = 0\<close>\<close>

definition close_batch :: "batch_acc \<Rightarrow> batch_acc" where
  "close_batch a = \<lparr>batches = batches a @ [currentBatch a], currentBatch = [], currentCost = 0\<rparr>"

text \<open>\<^verbatim>\<open>currentBatch.push(text); current... += cost\<close>\<close>

definition push_text :: "string \<Rightarrow> nat \<Rightarrow> batch_acc \<Rightarrow> batch_acc" where
  "push_text text cost a = a\<lparr>currentBatch := currentBatch a @ [text], currentCost := currentCost a + cost\<rparr>"

text \<open>After the loop: \<^verbatim>\<open>if (currentBatch.length > 0) batches.push(currentBatch)\<close>\<close>

definition finish_acc :: "batch_acc \<Rightarrow> string list list" where
  "finish_acc a = (if length (currentBatch a) > 0 then batches a @ [currentBatch a] else batches a)"

text \<open>The body of the \<^verbatim>\<open>for (const text of texts)\<close> loop of \<^verbatim>\<open>_createSmartBatches\<close>.\<close>

definition smart_step :: "nat \<Rightarrow> nat \<Rightarrow> batch_acc \<Rightarrow> string \<Rightarrow> batch_acc" where
  "smart_step optSize maxC a text =
     (let textComplexity = calculateTextComplexity (Str text);
          a1 = (if length (currentBatch a) \<ge> optSize
                   \<or> (currentCost a + textComplexity > maxC \<and> length (currentBatch a) > 0)
                then close_batch a else a)
      in push_text text textComplexity a1)"

text \<open>\<^verbatim>\<open>_createSmartBatches(texts, optimalSize, maxComplexity)\<close>\<close>

definition createSmartBatches :: "string list \<Rightarrow> nat \<Rightarrow> nat \<Rightarrow> string list list" where
  "createSmartBatches texts optSize maxC =
     (let totalSegments = length texts;
          totalComplexity = getTotalComplexity texts
      in if totalSegments \<le> min 20 optSize \<or> totalComplexity < min 300 maxC then [texts]
         else finish_acc (foldl (smart_step optSize maxC) init_acc texts))"

text \<open>
  \<^verbatim>\<open>_createFixedBatches(texts, batchSize)\<close>:
  \<^verbatim>\<open>for (let i = 0; i < texts.length; i += batchSize) batches.push(texts.slice(i, i + batchSize))\<close>.
  With a batch size of 0 and a non-empty input the loop never ends, so the loop is a
  partial function and not returning is \<open>None\<close>.
\<close>

partial_function (option) fixed_loop :: "string list \<Rightarrow> nat \<Rightarrow> nat \<Rightarrow> string list list \<Rightarrow> string list list option" where
  "fixed_loop texts batchSize i acc =
     (if i < length texts
      then fixed_loop texts batchSize (i + batchSize) (acc @ [take batchSize (drop i texts)])
      else Some acc)"

declare fixed_loop.simps [code]

definition createFixedBatches :: "string list \<Rightarrow> nat \<Rightarrow> string list list option" where
  "createFixedBatches texts batchSize = fixed_loop texts batchSize 0 []"

text \<open>
  \<^verbatim>\<open>Math.ceil(a / b)\<close> for a positive divisor; for natural numbers below \<open>2^53\<close> the
  double quotient rounds up to the same whole number as the exact one.
\<close>

definition ceil_div :: "nat \<Rightarrow> nat \<Rightarrow> nat" where
  "ceil_div a b = (a + b - 1) div b"

text \<open>The body of the loop of \<^verbatim>\<open>_createCharacterBasedBatches\<close>, with its \<^verbatim>\<open>continue\<close>.\<close>

definition char_step :: "nat \<Rightarrow> batch_acc \<Rightarrow> string \<Rightarrow> batch_acc" where
  "char_step targetBatchChars a text =
     (let textLength = length text;
          a1 = (if currentCost a + textLength > targetBatchChars \<and> length (currentBatch a) > 0
                then close_batch a else a)
      in if textLength > targetBatchChars
         then (let a2 = (if length (currentBatch a1) > 0 then close_batch a1 else a1)
               in a2\<lparr>batches := batches a2 @ [[text]]\<rparr>)
         else push_text text textLength a1)"

text \<open>
  \<^verbatim>\<open>_createCharacterBasedBatches(texts, maxCharsPerBatch, balancedBatching)\<close>. The budget
  is a natural number. Past the early return the total is above the budget, so the
  input is not empty; for a budget of 0 the source's \<^verbatim>\<open>idealBatchCount\<close> is
  \<^verbatim>\<open>Infinity\<close> and the minimum with \<^verbatim>\<open>texts.length\<close> is \<^verbatim>\<open>texts.length\<close>.
\<close>

definition createCharacterBasedBatches :: "string list \<Rightarrow> nat \<Rightarrow> bool \<Rightarrow> string list list" where
  "createCharacterBasedBatches texts maxCharsPerBatch balanced =
     (let totalChars = foldl (\<lambda>sum text. sum + length text) 0 texts
      in if totalChars \<le> maxCharsPerBatch then [texts]
         else let divisor = (if maxCharsPerBatch = 0 then length texts
                             else min (ceil_div totalChars maxCharsPerBatch + 1) (length texts));
                  balancedBatchSize = ceil_div totalChars divisor;
                  targetBatchChars = (if balanced then min balancedBatchSize maxCharsPerBatch
                                      else maxCharsPerBatch)
              in finish_acc (foldl (char_step targetBatchChars) init_acc texts))"

text \<open>
  The static fields of a provider class that batching reads, and the batching
  configuration \<^verbatim>\<open>getProviderBatching(providerName, translateMode)\<close> returns (a table
  outside this file: it is a parameter here). A field that is absent is \<open>None\<close>.
\<close>

record provider_class =
  preferredBatchStrategy :: string
  optimalBatchSize :: nat
  maxComplexity :: nat

record batching_config =
  strategy :: "string option"
  optimalSize :: "nat option"
  cfgMaxComplexity :: "nat option"
  maxBatchSizeChars :: "nat option"
  balancedBatching :: bool

text \<open>\<^verbatim>\<open>a || b\<close> on a number and on a string: 0, the empty string and an absent field are falsy.\<close>

definition num_or :: "nat option \<Rightarrow> nat \<Rightarrow> nat" where
  "num_or a b = (case a of None \<Rightarrow> b | Some n \<Rightarrow> if n = 0 then b else n)"

definition str_or :: "string option \<Rightarrow> string \<Rightarrow> string" where
  "str_or a b = (case a of None \<Rightarrow> b | Some s \<Rightarrow> if s = [] then b else s)"

text \<open>\<^verbatim>\<open>_createOptimalBatches(texts, translateMode)\<close>\<close>

definition createOptimalBatches ::
  "provider_class \<Rightarrow> batching_config \<Rightarrow> string option \<Rightarrow> string list \<Rightarrow> string list list option" where
  "createOptimalBatches cls cfg translateMode texts =
     (let strat = str_or (strategy cfg) (preferredBatchStrategy cls);
          optSize = num_or (optimalSize cfg) (optimalBatchSize cls);
          maxC = num_or (cfgMaxComplexity cfg) (maxComplexity cls)
      in if translateMode = Some ''select_element'' \<and> num_or (maxBatchSizeChars cfg) 0 \<noteq> 0
         then Some (createCharacterBasedBatches texts (num_or (maxBatchSizeChars cfg) 0) (balancedBatching cfg))
         else if strat = ''smart'' then Some (createSmartBatches texts optSize maxC)
         else if strat = ''single'' then Some [texts]
         else createFixedBatches texts optSize)"

text \<open>The static fields of \<^verbatim>\<open>BaseAIProvider\<close> itself.\<close>

definition BaseAIProvider :: provider_class where
  "BaseAIProvider = \<lparr>preferredBatchStrategy = ''smart'', optimalBatchSize = 15, maxComplexity = 300\<rparr>"

section \<open>Building the translation payload (TranslationOrchestrator)\<close>

text \<open>The placeholder of an empty line in the expanded texts.\<close>

definition EMPTY_LINE :: string where
  "EMPTY_LINE = ''[[EMPTY_LINE]]''"

text \<open>An entry of the origin mapping: \<^verbatim>\<open>{ originalIndex, isEmptyLine }\<close>.\<close>

record origin =
  originalIndex :: nat
  isEmptyLine :: bool




text \<open>
  \<^verbatim>\<open>expandedTexts.map(text => text === '[[EMPTY_LINE]]' ? '' : text)\<close>
\<close>

definition filteredExpandedTexts :: "string list \<Rightarrow> string list" where
  "filteredExpandedTexts expandedTexts = map (\<lambda>t. if t = EMPTY_LINE then [] else t) expandedTexts"

text \<open>An object \<^verbatim>\<open>{ text: t }\<close> of the payload, before \<^verbatim>\<open>JSON.stringify\<close>.\<close>

datatype payload_entry = TextEntry string

definition jsonPayload :: "string list \<Rightarrow> payload_entry list" where
  "jsonPayload filtered =
     (if length filtered = 1 then [TextEntry (hd filtered)] else map TextEntry filtered)"


section \<open>Parsing a batch response (BaseAIProvider)\<close>

text \<open>An object \<^verbatim>\<open>{ id, text }\<close> of a batch response.\<close>

record batch_item =
  item_id :: int
  item_text :: string

text \<open>
  What \<^verbatim>\<open>result.match(...)\<close> and \<^verbatim>\<open>JSON.parse\<close> make of a response: no JSON at all (no
  match, or a parse error), a value that is not an array, an array of strings, or an
  array of \<^verbatim>\<open>{ id, text }\<close> objects. The empty array is \<open>ObjArray []\<close>.
\<close>

datatype parsed_json = NoJson | NotArray | StrArray "string list" | ObjArray "batch_item list"

text \<open>
  \<^verbatim>\<open>result.split('\\n')\<close>: the separator is the two characters backslash and \<^verbatim>\<open>n\<close>.
\<close>

fun split_bsn :: "string \<Rightarrow> string \<Rightarrow> string list" where
  "split_bsn cur [] = [rev cur]"
| "split_bsn cur [c] = [rev (c # cur)]"
| "split_bsn cur (c # d # cs) =
     (if c = CHR 0x5C \<and> d = CHR ''n'' then rev cur # split_bsn [] cs
      else split_bsn (c # cur) (d # cs))"

text \<open>\<^verbatim>\<open>_fallbackParsing(result, expectedCount, originalBatch)\<close>\<close>

definition fallbackParsing :: "string \<Rightarrow> nat \<Rightarrow> string list \<Rightarrow> string list" where
  "fallbackParsing result expectedCount originalBatch =
     (let lines = split_bsn [] result;
          nonEmptyLines = filter (\<lambda>line. trim line \<noteq> []) lines
      in if length lines > expectedCount \<and> length nonEmptyLines = expectedCount then nonEmptyLines
         else if length lines = expectedCount then lines
         else originalBatch)"

text \<open>
  \<^verbatim>\<open>parsed.sort((a, b) => a.id - b.id).map(item => item.text)\<close>: the sort is stable.
\<close>

definition sorted_texts :: "batch_item list \<Rightarrow> string list" where
  "sorted_texts items = map item_text (sort_key item_id items)"

text \<open>
  The padding loop
  \<^verbatim>\<open>while (translatedTexts.length < expectedCount) translatedTexts.push(originalBatch[translatedTexts.length] || '')\<close>;
  past the end of \<^verbatim>\<open>originalBatch\<close> the read is \<^verbatim>\<open>undefined\<close> and the entry is \<^verbatim>\<open>''\<close>.
\<close>

definition pad_with_originals :: "string list \<Rightarrow> nat \<Rightarrow> string list \<Rightarrow> string list" where
  "pad_with_originals translatedTexts expectedCount originalBatch =
     translatedTexts @ map (\<lambda>k. if k < length originalBatch then originalBatch ! k else [])
                          [length translatedTexts ..< expectedCount]"

text \<open>
  \<^verbatim>\<open>_parseBatchResult(result, expectedCount, originalBatch)\<close>; \<open>parsed\<close> is what the regular
  expression and \<^verbatim>\<open>JSON.parse\<close> make of \<open>result\<close>. Every \<^verbatim>\<open>throw\<close> inside the \<^verbatim>\<open>try\<close> ends in
  \<^verbatim>\<open>_fallbackParsing\<close>. The test \<^verbatim>\<open>typeof parsed[0] === 'object'\<close> fails on the empty array.
\<close>

definition parseBatchResult :: "parsed_json \<Rightarrow> string \<Rightarrow> nat \<Rightarrow> string list \<Rightarrow> string list" where
  "parseBatchResult parsed result expectedCount originalBatch =
     (case parsed of
        NoJson \<Rightarrow> fallbackParsing result expectedCount originalBatch
      | NotArray \<Rightarrow> fallbackParsing result expectedCount originalBatch
      | StrArray ss \<Rightarrow>
          (if length ss = 1 then [hd ss]
           else fallbackParsing result expectedCount originalBatch)
      | ObjArray items \<Rightarrow>
          (if items = [] then fallbackParsing result expectedCount originalBatch
           else if length items = expectedCount then sorted_texts items
           else if length items > expectedCount then sorted_texts (take expectedCount items)
           else pad_with_originals (sorted_texts items) expectedCount originalBatch))"

section \<open>Streaming translation of the batches (BaseAIProvider)\<close>

text \<open>
  The errors the streaming path raises: the loop's own cancellation error (type
  \<^verbatim>\<open>USER_CANCELLED\<close>), the \<^verbatim>\<open>AbortError\<close> of the per-segment fallback, and a failure of the
  backend (a rejected request, a timeout, an unusable response).
\<close>

datatype err = UserCancelled | AbortError | BackendFailure

text \<open>
  The messages to the content script. \<^verbatim>\<open>_streamBatchResults\<close>, \<^verbatim>\<open>_streamFallbackResult\<close> and
  \<^verbatim>\<open>_streamErrorResults\<close> all send a \<^verbatim>\<open>TRANSLATION_STREAM_UPDATE\<close> with the fields
  \<^verbatim>\<open>batchIndex\<close>, \<^verbatim>\<open>success\<close>, \<^verbatim>\<open>data\<close>, \<^verbatim>\<open>originalData\<close> and \<^verbatim>\<open>error\<close> (absent fields are
  empty here); \<^verbatim>\<open>_sendStreamEnd\<close> sends a \<^verbatim>\<open>TRANSLATION_STREAM_END\<close> with \<^verbatim>\<open>success\<close>.
\<close>

datatype message =
    StreamUpdate (batchIndex: nat) (success: bool) (data: "string list")
      (originalData: "string list") (error: "err option")
  | StreamEnd bool

text \<open>
  What a run does, in order: it hands a batch to \<^verbatim>\<open>_translateBatch\<close> (the dispatch of
  the batch with that index), and it sends messages.
\<close>

datatype event = Dispatch nat | Send message

text \<open>Where \<^verbatim>\<open>_translateSingle\<close> is called from, within one batch.\<close>

datatype call_site = Direct | Combined | Fallback nat

text \<open>
  The surroundings of a run. \<open>aborted k\<close> and \<open>isCancelled k\<close> are what
  \<^verbatim>\<open>abortController.signal.aborted\<close> and \<^verbatim>\<open>engine.isCancelled(messageId)\<close> say at the check
  before batch \<open>k\<close>; \<open>fallbackAborted k i\<close> is the signal before item \<open>i\<close> of the fallback
  of batch \<open>k\<close>. \<open>translateSingle k site text\<close> is the outcome of the call of
  \<^verbatim>\<open>_translateSingle\<close> for batch \<open>k\<close> at that call site, the rate limiter and the race
  of a fallback item against its timeout included. The race of a whole batch against
  \<^verbatim>\<open>_createBatchTimeoutPromise\<close> is taken to be decided when \<^verbatim>\<open>_translateBatch\<close> settles; a
  run in which that timeout fires while \<^verbatim>\<open>_translateBatch\<close> is still under way (it then
  goes on in the background) is not modelled. \<open>buildBatchPrompt\<close> and \<open>extractJson\<close> stand for the
  prompt template and for the regular expression with \<^verbatim>\<open>JSON.parse\<close>. \<open>hasSender\<close> says
  that \<^verbatim>\<open>engine.getStreamingSender(messageId)\<close> names a tab; the engine and the message
  id are there, as \<^verbatim>\<open>_shouldUseStreaming\<close> requires. \<open>batchStrategy\<close> is the class's
  static field.
\<close>

record stream_env =
  aborted :: "nat \<Rightarrow> bool"
  isCancelled :: "nat \<Rightarrow> bool"
  fallbackAborted :: "nat \<Rightarrow> nat \<Rightarrow> bool"
  translateSingle :: "nat \<Rightarrow> call_site \<Rightarrow> string \<Rightarrow> err + string"
  buildBatchPrompt :: "string list \<Rightarrow> string"
  extractJson :: "string \<Rightarrow> parsed_json"
  hasSender :: bool
  batchStrategy :: string

text \<open>
  Sending a message: nothing is sent without a tab (\<^verbatim>\<open>senderInfo && senderInfo.tab?.id\<close>).
\<close>

definition emit :: "stream_env \<Rightarrow> message \<Rightarrow> event list" where
  "emit env m = (if hasSender env then [Send m] else [])"

text \<open>\<^verbatim>\<open>result || original\<close> on strings: the empty string is falsy.\<close>

definition or_original :: "string \<Rightarrow> string \<Rightarrow> string" where
  "or_original result original = (if result = [] then original else result)"

text \<open>
  The loop of \<^verbatim>\<open>_fallbackSingleRequests\<close> from item \<open>i\<close> on. Every translated item is
  streamed at once by \<^verbatim>\<open>_streamFallbackResult([translatedResult], [batch[i]], i, ...)\<close>, which
  puts the item's index \<open>i\<close> within the batch into the field \<^verbatim>\<open>batchIndex\<close>. The first
  error ends the loop.
\<close>

fun fallback_loop ::
  "stream_env \<Rightarrow> nat \<Rightarrow> nat \<Rightarrow> string list \<Rightarrow> string list \<Rightarrow> event list \<times> (err + string list)" where
  "fallback_loop env k i [] results = ([], Inr results)"
| "fallback_loop env k i (t # ts) results =
     (if fallbackAborted env k i then ([], Inl AbortError)
      else case translateSingle env k (Fallback i) t of
             Inl e \<Rightarrow> ([], Inl e)
           | Inr result \<Rightarrow>
               (let translatedResult = or_original result t;
                    sent = emit env (StreamUpdate i True [translatedResult] [t] None);
                    (evs, r) = fallback_loop env k (Suc i) ts (results @ [translatedResult])
                in (sent @ evs, r)))"

definition fallbackSingleRequests ::
  "stream_env \<Rightarrow> nat \<Rightarrow> string list \<Rightarrow> event list \<times> (err + string list)" where
  "fallbackSingleRequests env k batch = fallback_loop env k 0 batch []"

text \<open>
  \<^verbatim>\<open>_translateBatch(batch, ...)\<close> for the batch with index \<open>k\<close>: a batch of one text is
  translated directly, and its error is not caught; otherwise the combined request
  is tried, and every error of it, a result of the wrong size included, leads to the
  per-segment fallback.
\<close>

definition translateBatch ::
  "stream_env \<Rightarrow> nat \<Rightarrow> string list \<Rightarrow> event list \<times> (err + string list)" where
  "translateBatch env k batch =
     (if length batch = 1
      then (case translateSingle env k Direct (hd batch) of
              Inl e \<Rightarrow> ([], Inl e)
            | Inr result \<Rightarrow> ([], Inr [or_original result (hd batch)]))
      else if batchStrategy env = ''json''
      then (case translateSingle env k Combined (buildBatchPrompt env batch) of
              Inl e \<Rightarrow> fallbackSingleRequests env k batch
            | Inr result \<Rightarrow>
                (let parsedResults = parseBatchResult (extractJson env result) result (length batch) batch
                 in if length parsedResults = length batch then ([], Inr parsedResults)
                    else fallbackSingleRequests env k batch))
      else fallbackSingleRequests env k batch)"

text \<open>
  The loop of \<^verbatim>\<open>_streamingBatchTranslate\<close> from the batch with index \<open>idx\<close> on (the
  source's loop variable \<^verbatim>\<open>batchIndex\<close>).
  The two cancellation checks stand before the \<^verbatim>\<open>try\<close>: their error leaves the function
  with no message sent. An error of the batch is caught: the error update and the
  stream end are sent, and the error is thrown again.
\<close>

fun stream_loop ::
  "stream_env \<Rightarrow> nat \<Rightarrow> string list list \<Rightarrow> string list \<Rightarrow> event list \<times> (err + string list)" where
  "stream_loop env idx [] allResults = (emit env (StreamEnd True), Inr allResults)"
| "stream_loop env idx (batch # rest) allResults =
     (if aborted env idx then ([], Inl UserCancelled)
      else if isCancelled env idx then ([], Inl UserCancelled)
      else case translateBatch env idx batch of
             (evs, Inl e) \<Rightarrow>
               (Dispatch idx # evs
                  @ emit env (StreamUpdate idx False [] [] (Some e))
                  @ emit env (StreamEnd False),
                Inl e)
           | (evs, Inr batchResults) \<Rightarrow>
               (let (evs', r) = stream_loop env (Suc idx) rest (allResults @ batchResults)
                in (Dispatch idx # evs
                      @ emit env (StreamUpdate idx True batchResults batch None)
                      @ evs',
                    r)))"

text \<open>\<^verbatim>\<open>_streamingBatchTranslate\<close> on the batches \<^verbatim>\<open>_createOptimalBatches\<close> returned.\<close>

definition streamingBatchTranslate ::
  "stream_env \<Rightarrow> string list list \<Rightarrow> event list \<times> (err + string list)" where
  "streamingBatchTranslate env batchList = stream_loop env 0 batchList []"

section \<open>Applying translations to text nodes (TranslationUIManager)\<close>
































section \<open>Processing a stream update (TranslationUIManager)\<close>

text \<open>The fields of the streaming request that \<^verbatim>\<open>_processStreamTranslationData\<close> reads.\<close>

record stream_request =
  expandedTexts :: "string list"
  textsToTranslate :: "string list"
  originMapping :: "origin list"

text \<open>The \<^verbatim>\<open>translationData\<close> object stored for a segment that is applied.\<close>

record translation_data =
  td_text :: string
  td_isPartial :: bool
  td_segmentIndex :: nat
  td_originalIndex :: nat

text \<open>
  The state of the loop: \<^verbatim>\<open>request.translatedSegments\<close> (kept for the reassembly) and
  \<^verbatim>\<open>newlyAppliedTranslations\<close> (what is applied to the nodes at once).
\<close>

record stream_state =
  translatedSegments :: "nat \<rightharpoonup> string"
  newlyApplied :: "string \<rightharpoonup> translation_data"

text \<open>\<^verbatim>\<open>xs[i]\<close>: \<^verbatim>\<open>undefined\<close> out of range.\<close>

definition nth_opt :: "'a list \<Rightarrow> nat \<Rightarrow> 'a option" where
  "nth_opt xs i = (if i < length xs then Some (xs ! i) else None)"

text \<open>\<^verbatim>\<open>xs.findIndex(x => x === v)\<close>: the first index, \<open>None\<close> for \<open>-1\<close>.\<close>

fun find_index :: "'a \<Rightarrow> 'a list \<Rightarrow> nat option" where
  "find_index v [] = None"
| "find_index v (x # xs) = (if x = v then Some 0 else map_option Suc (find_index v xs))"

text \<open>
  The minimum-content test \<^verbatim>\<open>translatedText.trim().length > originalTextKey.trim().length * 0.1\<close>,
  in whole numbers (see the remark on the doubles above).
\<close>

definition hasMinimumContent :: "string \<Rightarrow> string \<Rightarrow> bool" where
  "hasMinimumContent translatedText originalTextKey =
     (10 * length (trim translatedText) > length (trim originalTextKey))"

text \<open>
  The body of the loop of \<^verbatim>\<open>_processStreamTranslationData\<close> for one segment of the
  update: its translation and, if the update has one at that index, its original
  text. \<open>isPartial\<close> stands for \<^verbatim>\<open>_isPartialTranslation\<close>, which only sets a flag of the
  stored object. The second \<^verbatim>\<open>set\<close>, under the full original text, is guarded by
  \<^verbatim>\<open>fullOriginalText.trim() !== originalTextKey.trim()\<close> with
  \<^verbatim>\<open>fullOriginalText = originalTextKey\<close>, as in the source.
\<close>

definition process_segment ::
  "(string \<Rightarrow> string \<Rightarrow> bool) \<Rightarrow> stream_request \<Rightarrow> stream_state \<Rightarrow> string \<times> string option \<Rightarrow> stream_state" where
  "process_segment isPartial request st seg =
     (case seg of (translatedText, originalText) \<Rightarrow>
      (case (case originalText of None \<Rightarrow> None | Some ot \<Rightarrow> find_index ot (expandedTexts request)) of
         None \<Rightarrow> st
       | Some expandedIndex \<Rightarrow>
           let st1 = st\<lparr>translatedSegments := (translatedSegments st)(expandedIndex \<mapsto> translatedText)\<rparr>
           in (case nth_opt (originMapping request) expandedIndex of
                 None \<Rightarrow> st1
               | Some mappingInfo \<Rightarrow>
                   if isEmptyLine mappingInfo then st1
                   else (case nth_opt (textsToTranslate request) (originalIndex mappingInfo) of
                           None \<Rightarrow> st1
                         | Some originalTextKey \<Rightarrow>
                             if originalTextKey = [] then st1
                             else if hasMinimumContent translatedText originalTextKey
                             then (let translationData =
                                         \<lparr>td_text = translatedText,
                                          td_isPartial = isPartial originalTextKey translatedText,
                                          td_segmentIndex = expandedIndex,
                                          td_originalIndex = originalIndex mappingInfo\<rparr>;
                                       m1 = (newlyApplied st1)(trim originalTextKey \<mapsto> translationData);
                                       fullOriginalText = originalTextKey;
                                       m2 = (if trim fullOriginalText \<noteq> trim originalTextKey
                                             then m1(fullOriginalText \<mapsto> translationData) else m1)
                                   in st1\<lparr>newlyApplied := m2\<rparr>)
                             else st1))))"

text \<open>
  \<^verbatim>\<open>_processStreamTranslationData(request, data)\<close> up to the call that applies the new
  translations: the loop over \<^verbatim>\<open>translatedBatch\<close>, starting from the segments the
  request already holds and an empty \<^verbatim>\<open>newlyAppliedTranslations\<close>.
\<close>

definition processStreamTranslationData ::
  "(string \<Rightarrow> string \<Rightarrow> bool) \<Rightarrow> stream_request \<Rightarrow> (nat \<rightharpoonup> string) \<Rightarrow> string list \<Rightarrow> string list \<Rightarrow> stream_state" where
  "processStreamTranslationData isPartial request segments translatedBatch originalBatch =
     foldl (process_segment isPartial request)
       \<lparr>translatedSegments = segments, newlyApplied = Map.empty\<rparr>
       (map (\<lambda>i. (translatedBatch ! i, nth_opt originalBatch i)) [0 ..< length translatedBatch])"

text \<open>
  \<^verbatim>\<open>if (newlyAppliedTranslations.size > 0) await this._applyStreamingTranslationsImmediately(...)\<close>:
  whether the text nodes are touched at all after the update.
\<close>

definition applies_to_nodes :: "stream_state \<Rightarrow> bool" where
  "applies_to_nodes st = (newlyApplied st \<noteq> Map.empty)"

section \<open>Notions the statements use\<close>

text \<open>What a loop state holds: the closed batches in order, then the open batch.\<close>

definition acc_contents :: "batch_acc \<Rightarrow> string list" where
  "acc_contents a = concat (batches a) @ currentBatch a"

text \<open>An input for the fixed-size strategy: batches of two.\<close>

definition cfg_fixed2 :: batching_config where
  "cfg_fixed2 = \<lparr>strategy = Some ''fixed'', optimalSize = Some 2, cfgMaxComplexity = None,
     maxBatchSizeChars = None, balancedBatching = False\<rparr>"

text \<open>
  The complexity formula in the specification's words: the number of maximal runs of
  \<^verbatim>\<open>.\<close>, \<^verbatim>\<open>!\<close> and \<^verbatim>\<open>?\<close>, the number of words of the trimmed string (its maximal runs
  of characters that are not white space), and the rounded sum.
\<close>

definition sentence_count :: "string \<Rightarrow> nat" where
  "sentence_count s = count_runs is_terminator False s"

definition word_count :: "string \<Rightarrow> nat" where
  "word_count s = count_runs (\<lambda>c. \<not> is_space c) False (trim s)"

definition spec_complexity :: "string \<Rightarrow> nat" where
  "spec_complexity s =
     nat (js_round (min (of_nat (length s) * (1 / 2)) 100 + of_nat (sentence_count s) * 2
                    + min (of_nat (word_count s) * (1 / 2)) 20))"

text \<open>
  Whether a string ends in white space; for the empty string, whether the character
  before it was white space (\<open>b\<close>).
\<close>

fun ends_in_space :: "bool \<Rightarrow> string \<Rightarrow> bool" where
  "ends_in_space b [] = b"
| "ends_in_space b (c # cs) = ends_in_space (is_space c) cs"

text \<open>
  Inputs: sixteen texts of forty letters (complexity 21 each, 336 in all), twenty texts
  of one letter (complexity 1 each), and a segment of sixty letters.
\<close>

definition texts16 :: "string list" where
  "texts16 = replicate 16 (replicate 40 CHR ''a'')"

definition texts20 :: "string list" where
  "texts20 = replicate 20 ''a''"

definition seg60 :: string where
  "seg60 = replicate 60 CHR ''a''"

text \<open>
  Batch responses: two items for a batch of three (the item with id 1 is missing, and
  the items come in the order 2, 0), and three items for a batch of two.
\<close>

definition items_0_2 :: "batch_item list" where
  "items_0_2 = [\<lparr>item_id = 2, item_text = ''C''\<rparr>, \<lparr>item_id = 0, item_text = ''A''\<rparr>]"

definition items_extra :: "batch_item list" where
  "items_extra = [\<lparr>item_id = 1, item_text = ''B''\<rparr>, \<lparr>item_id = 0, item_text = ''A''\<rparr>,
                  \<lparr>item_id = 2, item_text = ''C''\<rparr>]"

text \<open>
  A batch passes: neither cancellation check before it fires, and \<^verbatim>\<open>_translateBatch\<close>
  returns its results.
\<close>

definition batch_ok :: "stream_env \<Rightarrow> nat \<Rightarrow> string list \<Rightarrow> bool" where
  "batch_ok env k batch =
     (\<not> aborted env k \<and> \<not> isCancelled env k \<and> \<not> isl (snd (translateBatch env k batch)))"

text \<open>
  The loop, started at the index \<open>idx\<close> on the batches \<open>bs\<close>, reaches the cancellation
  check before its \<open>n\<close>-th batch: the \<open>n\<close> batches before it pass.
\<close>

fun reaches :: "stream_env \<Rightarrow> nat \<Rightarrow> string list list \<Rightarrow> nat \<Rightarrow> bool" where
  "reaches env idx bs 0 = True"
| "reaches env idx [] (Suc n) = False"
| "reaches env idx (b # rest) (Suc n) = (batch_ok env idx b \<and> reaches env (Suc idx) rest n)"

text \<open>
  What the loop does for a batch that passes: the dispatch, the messages of
  \<^verbatim>\<open>_translateBatch\<close>, and the update with the results of the batch.
\<close>

definition batch_events :: "stream_env \<Rightarrow> nat \<Rightarrow> string list \<Rightarrow> event list" where
  "batch_events env k batch =
     (case translateBatch env k batch of
        (evs, Inr batchResults) \<Rightarrow>
          Dispatch k # evs @ emit env (StreamUpdate k True batchResults batch None)
      | (evs, Inl e) \<Rightarrow> [])"

definition batch_results :: "stream_env \<Rightarrow> nat \<Rightarrow> string list \<Rightarrow> string list" where
  "batch_results env k batch =
     (case snd (translateBatch env k batch) of Inr batchResults \<Rightarrow> batchResults | Inl e \<Rightarrow> [])"

text \<open>The events and the results of the first \<open>n\<close> batches.\<close>

fun events_before :: "stream_env \<Rightarrow> nat \<Rightarrow> string list list \<Rightarrow> nat \<Rightarrow> event list" where
  "events_before env idx bs 0 = []"
| "events_before env idx [] (Suc n) = []"
| "events_before env idx (b # rest) (Suc n) = batch_events env idx b @ events_before env (Suc idx) rest n"

fun results_before :: "stream_env \<Rightarrow> nat \<Rightarrow> string list list \<Rightarrow> nat \<Rightarrow> string list" where
  "results_before env idx bs 0 = []"
| "results_before env idx [] (Suc n) = []"
| "results_before env idx (b # rest) (Suc n) = batch_results env idx b @ results_before env (Suc idx) rest n"

text \<open>
  Surroundings for the examples. In all of them a tab listens, nothing is aborted,
  every combined request fails, and a text \<open>t\<close> translated alone gives \<open>T-t\<close>. In
  \<open>env_cancel_at_1\<close> the engine reports the cancellation at the check before batch 1.
  In \<open>env_fail_item\<close> the fallback request for item \<open>i\<close> of batch \<open>k\<close> fails as well.
\<close>

definition env_base :: stream_env where
  "env_base =
     \<lparr>aborted = (\<lambda>k. False), isCancelled = (\<lambda>k. False), fallbackAborted = (\<lambda>k i. False),
      translateSingle = (\<lambda>k site t. case site of Combined \<Rightarrow> Inl BackendFailure
                                      | _ \<Rightarrow> Inr (''T-'' @ t)),
      buildBatchPrompt = concat, extractJson = (\<lambda>r. NoJson), hasSender = True,
      batchStrategy = ''json''\<rparr>"

definition env_cancel_at_1 :: stream_env where
  "env_cancel_at_1 = env_base\<lparr>isCancelled := (\<lambda>k. k = 1)\<rparr>"

definition env_fail_item :: "nat \<Rightarrow> nat \<Rightarrow> stream_env" where
  "env_fail_item k i =
     env_base\<lparr>translateSingle :=
       (\<lambda>k' site t. case site of Combined \<Rightarrow> Inl BackendFailure
                     | Fallback i' \<Rightarrow> if k' = k \<and> i' = i then Inl BackendFailure else Inr (''T-'' @ t)
                     | Direct \<Rightarrow> Inr (''T-'' @ t))\<rparr>"

text \<open>
  The recovery in the specification's words: the entries go by their id, a missing
  entry is filled with the original text of its position, and entries beyond the
  batch are discarded.
\<close>

definition recover_by_id :: "batch_item list \<Rightarrow> nat \<Rightarrow> string list \<Rightarrow> string list" where
  "recover_by_id items n originalBatch =
     map (\<lambda>k. case find (\<lambda>it. item_id it = int k) items of
                 Some it \<Rightarrow> item_text it
               | None \<Rightarrow> (if k < length originalBatch then originalBatch ! k else []))
         [0 ..< n]"







text \<open>
  A streaming request for the one unit \<^verbatim>\<open>Good night\<close> (ten characters), which is one
  segment, and a stand-in for \<^verbatim>\<open>_isPartialTranslation\<close>.
\<close>

definition request_night :: stream_request where
  "request_night =
     \<lparr>expandedTexts = [''Good night''], textsToTranslate = [''Good night''],
      originMapping = [\<lparr>originalIndex = 0, isEmptyLine = False\<rparr>]\<rparr>"

definition never_partial :: "string \<Rightarrow> string \<Rightarrow> bool" where
  "never_partial originalText translatedText = False"

text \<open>
  Every translation that is to be applied at once belongs to a unit of the request,
  is filed under that unit's trimmed text, and its trimmed length is more than a
  tenth of the trimmed length of that unit's text.
\<close>

definition applied_ok :: "stream_request \<Rightarrow> stream_state \<Rightarrow> bool" where
  "applied_ok request st =
     (\<forall>key td. newlyApplied st key = Some td \<longrightarrow>
        (\<exists>originalTextKey. nth_opt (textsToTranslate request) (td_originalIndex td) = Some originalTextKey
           \<and> key = trim originalTextKey
           \<and> length (trim originalTextKey) < 10 * length (trim (td_text td))))"

section \<open>Batch coverage\<close>

lemma concat_finish_acc: "concat (finish_acc a) = acc_contents a"
  by (simp add: finish_acc_def acc_contents_def)

lemma smart_step_contents: "acc_contents (smart_step os mc a t) = acc_contents a @ [t]"
  by (simp add: smart_step_def acc_contents_def close_batch_def push_text_def Let_def)

lemma char_step_contents: "acc_contents (char_step tg a t) = acc_contents a @ [t]"
  by (simp add: char_step_def acc_contents_def close_batch_def push_text_def Let_def)

lemma foldl_smart_contents: "acc_contents (foldl (smart_step os mc) a ts) = acc_contents a @ ts"
  by (induction ts arbitrary: a) (simp_all add: smart_step_contents)

lemma foldl_char_contents: "acc_contents (foldl (char_step tg) a ts) = acc_contents a @ ts"
  by (induction ts arbitrary: a) (simp_all add: char_step_contents)

lemma concat_createSmartBatches: "concat (createSmartBatches texts os mc) = texts"
  using foldl_smart_contents [of os mc init_acc texts]
  by (simp add: createSmartBatches_def Let_def concat_finish_acc acc_contents_def init_acc_def)

lemma concat_createCharacterBasedBatches: "concat (createCharacterBasedBatches texts m b) = texts"
  using foldl_char_contents [of _ init_acc texts]
  by (simp add: createCharacterBasedBatches_def Let_def concat_finish_acc acc_contents_def init_acc_def)

text \<open>
  The fixed-size loop returns for every positive batch size: the distance of \<open>i\<close> to the
  end of the input shrinks with every round.
\<close>

lemma fixed_loop_returns:
  assumes "0 < n"
  shows "\<exists>bs. fixed_loop texts n i acc = Some bs \<and> concat bs = concat acc @ drop i texts"
proof (induction "length texts - i" arbitrary: i acc rule: less_induct)
  case less
  show ?case
  proof (cases "i < length texts")
    case True
    then have "length texts - (i + n) < length texts - i" using assms by arith
    from less [OF this, of "acc @ [take n (drop i texts)]"]
    obtain bs where bs: "fixed_loop texts n (i + n) (acc @ [take n (drop i texts)]) = Some bs"
      "concat bs = concat (acc @ [take n (drop i texts)]) @ drop (i + n) texts" by blast
    have "take n (drop i texts) @ drop (i + n) texts = drop i texts"
      by (metis append_take_drop_id drop_drop add.commute)
    with bs True show ?thesis
      by (subst fixed_loop.simps) simp
  next
    case False
    then show ?thesis by (subst fixed_loop.simps) simp
  qed
qed

lemma createFixedBatches_returns:
  "0 < n \<Longrightarrow> \<exists>bs. createFixedBatches texts n = Some bs \<and> concat bs = texts"
  using fixed_loop_returns [of n texts 0 "[]"] by (simp add: createFixedBatches_def)

text \<open>
  C1. Every strategy returns batches whose concatenation, in batch order and then in
  the order inside each batch, is the input list: smart batching and character-budget
  batching for every parameter, the single batch, fixed-size batching for every
  positive batch size (for which it also returns), and the dispatcher
  \<^verbatim>\<open>_createOptimalBatches\<close> for every class and configuration whose effective batch
  size is positive.
\<close>

theorem batches_cover_input:
  "concat (createSmartBatches texts optSize maxC) = texts
   \<and> concat (createCharacterBasedBatches texts maxChars balanced) = texts
   \<and> (0 < batchSize \<longrightarrow> (\<exists>bs. createFixedBatches texts batchSize = Some bs \<and> concat bs = texts))
   \<and> (0 < num_or (optimalSize cfg) (optimalBatchSize cls) \<longrightarrow>
        (\<exists>bs. createOptimalBatches cls cfg translateMode texts = Some bs \<and> concat bs = texts))"
  using createFixedBatches_returns [of "num_or (optimalSize cfg) (optimalBatchSize cls)" texts]
    createFixedBatches_returns [of batchSize texts]
  by (simp add: concat_createSmartBatches concat_createCharacterBasedBatches
      createOptimalBatches_def Let_def)

theorem batches_cover_input_witness:
  "(0::nat) < 2 \<and> 0 < num_or (optimalSize cfg_fixed2) (optimalBatchSize BaseAIProvider)
   \<and> createFixedBatches [''a'', ''b'', ''c''] 2 = Some [[''a'', ''b''], [''c'']]
   \<and> createOptimalBatches BaseAIProvider cfg_fixed2 None [''a'', ''b'', ''c''] = Some [[''a'', ''b''], [''c'']]
   \<and> concat [[''a'', ''b''], [''c'']] = [''a'', ''b'', ''c'']"
  using batches_cover_input [of "[''a'', ''b'', ''c'']" 2 0 0 False 2 cfg_fixed2 BaseAIProvider None]
  by (simp add: createOptimalBatches_def cfg_fixed2_def BaseAIProvider_def str_or_def num_or_def
      createFixedBatches_def fixed_loop.simps)

section \<open>Segment complexity\<close>

subsection \<open>Rounding and halves\<close>

lemma js_round_half: "js_round (of_nat n / 2) = (int n + 1) div 2"
proof -
  have "(of_nat n / 2 + 1 / 2 :: rat) = of_int (int n + 1) / of_int 2"
    by (simp add: add_divide_distrib)
  then show ?thesis unfolding js_round_def by (simp only: floor_divide_of_int_eq)
qed

lemma floor_rat_numeral_div [simp]: "\<lfloor>numeral a / numeral b :: rat\<rfloor> = numeral a div numeral b"
  by (metis floor_divide_of_int_eq of_int_numeral)

subsection \<open>Pieces of a split and words\<close>

lemma length_split_go: "length (split_go cur inws s) = Suc (count_runs is_space inws s)"
  by (induction s arbitrary: cur inws) simp_all

text \<open>
  Runs of words and runs of white space alternate, so their numbers differ by what
  stands at the two ends.
\<close>

lemma runs_balance:
  "count_runs (\<lambda>c. \<not> is_space c) (\<not> b) s + (if ends_in_space b s then 1 else 0)
   = count_runs is_space b s + (if b then 1 else 0)"
proof (induction s arbitrary: b)
  case Nil
  then show ?case by simp
next
  case (Cons c cs)
  from Cons [of "is_space c"] show ?case
    by (cases b; cases "is_space c") simp_all
qed

lemma ends_in_space_last: "s \<noteq> [] \<Longrightarrow> ends_in_space b s = is_space (last s)"
  by (induction s arbitrary: b) auto

lemma count_runs_start: "s \<noteq> [] \<Longrightarrow> \<not> P (hd s) \<Longrightarrow> count_runs P b s = count_runs P False s"
  by (cases s) auto

lemma last_dropWhile: "dropWhile P xs \<noteq> [] \<Longrightarrow> last (dropWhile P xs) = last xs"
  by (induction xs) (auto split: if_splits)

lemma trim_ends:
  assumes "trim s \<noteq> []"
  shows "\<not> is_space (hd (trim s))" and "\<not> is_space (last (trim s))"
proof -
  let ?d = "dropWhile is_space (rev (dropWhile is_space s))"
  have ne: "?d \<noteq> []" using assms by (simp add: trim_def)
  have ne2: "dropWhile is_space s \<noteq> []"
  proof
    assume "dropWhile is_space s = []"
    with ne show False by (metis dropWhile.simps(1) rev.simps(1))
  qed
  have "last (trim s) = hd ?d" using ne by (simp add: trim_def last_rev)
  then show "\<not> is_space (last (trim s))" using ne hd_dropWhile [of is_space] by metis
  have "hd (trim s) = last ?d" using ne by (simp add: trim_def hd_rev)
  also have "\<dots> = last (rev (dropWhile is_space s))" using ne by (rule last_dropWhile)
  also have "\<dots> = hd (dropWhile is_space s)" using ne2 by (simp add: last_rev)
  finally show "\<not> is_space (hd (trim s))" using ne2 hd_dropWhile [of is_space s] by simp
qed

lemma trim_eq_Nil: "trim s = [] \<longleftrightarrow> (\<forall>c \<in> set s. is_space c)"
proof
  assume "\<forall>c \<in> set s. is_space c"
  then have d: "dropWhile is_space s = []" by (simp only: dropWhile_eq_Nil_conv)
  show "trim s = []" unfolding trim_def d by simp
next
  assume t: "trim s = []"
  have "dropWhile is_space s = []"
  proof (rule ccontr)
    assume ne: "dropWhile is_space s \<noteq> []"
    then have "\<not> is_space (hd (dropWhile is_space s))" by (rule hd_dropWhile)
    moreover have "hd (dropWhile is_space s) \<in> set (rev (dropWhile is_space s))"
      using ne by simp
    moreover from t have "\<forall>c \<in> set (rev (dropWhile is_space s)). is_space c"
      unfolding trim_def rev_is_Nil_conv dropWhile_eq_Nil_conv .
    ultimately show False by blast
  qed
  then show "\<forall>c \<in> set s. is_space c" by (simp only: dropWhile_eq_Nil_conv)
qed

text \<open>
  Splitting a trimmed string gives its words, and one empty piece when there is no
  word.
\<close>

lemma split_trim_count: "length (split_ws (trim s)) = max 1 (word_count s)"
proof (cases "trim s = []")
  case True
  then show ?thesis by (simp add: split_ws_def word_count_def)
next
  case False
  let ?t = "trim s"
  from trim_ends [OF False] have h: "\<not> is_space (hd ?t)" and l: "\<not> is_space (last ?t)" by auto
  have "count_runs (\<lambda>c. \<not> is_space c) False ?t + (if ends_in_space True ?t then 1 else 0)
        = count_runs is_space True ?t + 1"
    using runs_balance [of True ?t] by simp
  moreover have "\<not> ends_in_space True ?t" using False l by (simp add: ends_in_space_last)
  moreover have "count_runs is_space True ?t = count_runs is_space False ?t"
    using False h by (rule count_runs_start)
  ultimately have "word_count s = Suc (count_runs is_space False ?t)"
    by (simp add: word_count_def)
  then show ?thesis by (simp add: split_ws_def length_split_go)
qed

lemma word_count_pos: "trim s \<noteq> [] \<Longrightarrow> 0 < word_count s"
  using trim_ends(1) [of s] by (cases "trim s") (auto simp: word_count_def)

text \<open>
  C9, as stated, fails on a string of two spaces: the trimmed string has no word, so
  the formula gives \<open>round(1) = 1\<close>, while the source counts the one empty piece of
  \<^verbatim>\<open>"".split(/\s+/)\<close> as a word and returns \<open>round(1.5) = 2\<close>.
\<close>

theorem complexity_counterexample:
  "calculateTextComplexity (Str ''  '') = 2 \<and> spec_complexity ''  '' = 1"
  by (simp add: spec_complexity_def sentence_count_def word_count_def trim_def is_space_def
      split_ws_def js_round_def is_terminator_def)

text \<open>
  C9, amended. The complexity of a value that is not a string is 0. For the empty
  string and for every string with a character that is not white space it is the
  rounded sum \<open>round(min(length * 0.5, 100) + sentenceCount * 2 + min(wordCount * 0.5, 20))\<close> of
  the specification. For a non-empty string of white space only, the word count is
  taken as 1 and the complexity is \<open>round(min(length * 0.5, 100) + 0.5)\<close>.
\<close>

theorem complexity_formula:
  "calculateTextComplexity NonString = 0
   \<and> (s = [] \<or> trim s \<noteq> [] \<longrightarrow> calculateTextComplexity (Str s) = spec_complexity s)
   \<and> (s \<noteq> [] \<and> trim s = [] \<longrightarrow>
        calculateTextComplexity (Str s) = nat (js_round (min (of_nat (length s) * (1 / 2)) 100 + 1 / 2)))"
proof (intro conjI impI)
  show "calculateTextComplexity NonString = 0" by simp
next
  assume a: "s = [] \<or> trim s \<noteq> []"
  show "calculateTextComplexity (Str s) = spec_complexity s"
  proof (cases "s = []")
    case True
    then show ?thesis
      by (simp add: spec_complexity_def sentence_count_def word_count_def trim_def js_round_def)
  next
    case False
    with a have "trim s \<noteq> []" by simp
    then have "max 1 (word_count s) = word_count s" using word_count_pos [of s] by simp
    with False show ?thesis
      by (simp add: spec_complexity_def sentence_count_def split_trim_count Let_def)
  qed
next
  assume a: "s \<noteq> [] \<and> trim s = []"
  then have w: "length (split_ws (trim s)) = 1" by (simp add: split_ws_def)
  have "\<forall>c \<in> set s. is_space c"
    using a by (simp add: trim_eq_Nil)
  moreover have "\<And>c. is_space c \<Longrightarrow> \<not> is_terminator c"
    by (auto simp: is_space_def is_terminator_def)
  ultimately have "\<forall>c \<in> set s. \<not> is_terminator c" by blast
  then have "count_runs is_terminator b s = 0" for b
    by (induction s arbitrary: b) auto
  with a w show "calculateTextComplexity (Str s)
      = nat (js_round (min (of_nat (length s) * (1 / 2)) 100 + 1 / 2))"
    by (simp add: Let_def)
qed

theorem complexity_formula_witness:
  "trim ''Hi there. Ok?'' \<noteq> []
   \<and> calculateTextComplexity (Str ''Hi there. Ok?'') = spec_complexity ''Hi there. Ok?''
   \<and> spec_complexity ''Hi there. Ok?'' = 12
   \<and> ''  '' \<noteq> [] \<and> trim ''  '' = [] \<and> calculateTextComplexity (Str ''  '') = 2"
  using complexity_formula [of "''Hi there. Ok?''"] complexity_formula [of "''  ''"]
  by (simp add: spec_complexity_def sentence_count_def word_count_def trim_def is_space_def
      split_ws_def js_round_def is_terminator_def)

text \<open>The score in whole numbers: twice the sum, plus one, halved.\<close>

lemma complexity_nat:
  "calculateTextComplexity (Str s) =
     (if s = [] then 0
      else (min (length s) 200 + 4 * count_runs is_terminator False s
            + min (length (split_ws (trim s))) 40 + 1) div 2)"
proof (cases "s = []")
  case True
  then show ?thesis by simp
next
  case False
  let ?n = "min (length s) 200 + 4 * count_runs is_terminator False s + min (length (split_ws (trim s))) 40"
  let ?r = "min (of_nat (length s) * (1 / 2)) (100 :: rat) + of_nat (count_runs is_terminator False s) * 2
        + min (of_nat (length (split_ws (trim s))) * (1 / 2)) 20"
  have e: "?r = of_nat ?n / 2"
    by (simp add: min_def add_divide_distrib)
  have "calculateTextComplexity (Str s) = nat (js_round ?r)"
    using False by (simp add: Let_def)
  also have "\<dots> = nat ((int ?n + 1) div 2)"
    by (simp only: e js_round_half)
  also have "\<dots> = (?n + 1) div 2"
    by (metis nat_int of_nat_1 of_nat_add of_nat_div of_nat_numeral)
  finally show ?thesis using False by simp
qed

section \<open>The early exit of smart batching\<close>

lemma foldl_ones:
  "\<forall>t \<in> set texts. calculateTextComplexity (Str t) = 1 \<Longrightarrow>
   foldl (\<lambda>sum text. sum + calculateTextComplexity (Str text)) a texts = a + length texts"
  by (induction texts arbitrary: a) (simp_all del: calculateTextComplexity.simps)

lemma total_ones:
  "\<forall>t \<in> set texts. calculateTextComplexity (Str t) = 1 \<Longrightarrow> getTotalComplexity texts = length texts"
  unfolding getTotalComplexity_def by (simp add: foldl_ones del: calculateTextComplexity.simps)

text \<open>
  C2, as stated, fails for the class defaults of \<^verbatim>\<open>BaseAIProvider\<close> (optimal size 15,
  maximal complexity 300): sixteen texts are at most 20, but more than
  \<open>min(20, 15)\<close>, and their total complexity 336 is not below 300, so the loop runs
  and closes a first batch of fourteen texts.
\<close>

theorem smart_threshold_counterexample:
  "length texts16 \<le> 20
   \<and> createSmartBatches texts16 (optimalBatchSize BaseAIProvider) (maxComplexity BaseAIProvider)
       = [replicate 14 (replicate 40 CHR ''a''), replicate 2 (replicate 40 CHR ''a'')]"
  unfolding texts16_def BaseAIProvider_def by code_simp

text \<open>
  C2, amended. Smart batching returns the one batch of all texts whenever the segment
  count is at most \<open>min(20, optimalSize)\<close> or the total complexity is below
  \<open>min(300, maxComplexity)\<close>; so the thresholds 20 and 300 of the claim hold for every
  provider with \<open>optimalSize \<ge> 20\<close> and \<open>maxComplexity \<ge> 300\<close>. In particular twenty
  texts of complexity 1 each give one batch whenever \<open>optimalSize \<ge> 20\<close> or
  \<open>maxComplexity > 20\<close>.
\<close>

theorem smart_threshold:
  "(length texts \<le> min 20 optSize \<or> getTotalComplexity texts < min 300 maxC
      \<longrightarrow> createSmartBatches texts optSize maxC = [texts])
   \<and> (20 \<le> optSize \<and> 300 \<le> maxC \<and> (length texts \<le> 20 \<or> getTotalComplexity texts < 300)
      \<longrightarrow> createSmartBatches texts optSize maxC = [texts])
   \<and> (length texts = 20 \<and> (\<forall>t \<in> set texts. calculateTextComplexity (Str t) = 1)
        \<and> (20 \<le> optSize \<or> 20 < maxC)
      \<longrightarrow> createSmartBatches texts optSize maxC = [texts])"
proof (intro conjI impI)
  assume "length texts \<le> min 20 optSize \<or> getTotalComplexity texts < min 300 maxC"
  then show "createSmartBatches texts optSize maxC = [texts]"
    by (simp add: createSmartBatches_def Let_def)
next
  assume "20 \<le> optSize \<and> 300 \<le> maxC \<and> (length texts \<le> 20 \<or> getTotalComplexity texts < 300)"
  then have "length texts \<le> min 20 optSize \<or> getTotalComplexity texts < min 300 maxC"
    by auto
  then show "createSmartBatches texts optSize maxC = [texts]"
    by (simp add: createSmartBatches_def Let_def)
next
  assume a: "length texts = 20 \<and> (\<forall>t \<in> set texts. calculateTextComplexity (Str t) = 1)
    \<and> (20 \<le> optSize \<or> 20 < maxC)"
  then have "getTotalComplexity texts = 20" using total_ones [of texts] by simp
  with a have "length texts \<le> min 20 optSize \<or> getTotalComplexity texts < min 300 maxC"
    by auto
  then show "createSmartBatches texts optSize maxC = [texts]"
    by (simp add: createSmartBatches_def Let_def)
qed

lemma complexity_a: "calculateTextComplexity (Str ''a'') = 1"
  by (simp add: complexity_nat trim_def split_ws_def is_space_def is_terminator_def
      del: calculateTextComplexity.simps)

theorem smart_threshold_witness:
  "getTotalComplexity texts20 < min 300 (maxComplexity BaseAIProvider)
   \<and> length texts20 = 20 \<and> (20::nat) < maxComplexity BaseAIProvider
   \<and> (20::nat) \<le> 25 \<and> (300::nat) \<le> 400 \<and> length texts20 \<le> 20
   \<and> createSmartBatches texts20 (optimalBatchSize BaseAIProvider) (maxComplexity BaseAIProvider) = [texts20]
   \<and> createSmartBatches texts20 25 400 = [texts20]"
proof -
  have one: "\<forall>t \<in> set texts20. calculateTextComplexity (Str t) = 1"
    using complexity_a by (simp add: texts20_def del: calculateTextComplexity.simps)
  have len: "length texts20 = 20" by (simp add: texts20_def)
  have tot: "getTotalComplexity texts20 = 20" using total_ones [OF one] len by simp
  show ?thesis
    using smart_threshold [of texts20 "optimalBatchSize BaseAIProvider" "maxComplexity BaseAIProvider"]
      smart_threshold [of texts20 25 400] one len tot
    by (simp add: BaseAIProvider_def del: calculateTextComplexity.simps)
qed

section \<open>Character-budget batching of three segments of sixty characters\<close>

text \<open>
  C7, as stated, fails: with a budget of 100 the planner returns three batches, with
  and without balancing. Two segments of 60 characters are 120 characters, above the
  budget, so every segment closes the batch before it.
\<close>

theorem char_budget_counterexample:
  "createCharacterBasedBatches [seg60, seg60, seg60] 100 False = [[seg60], [seg60], [seg60]]
   \<and> createCharacterBasedBatches [seg60, seg60, seg60] 100 True = [[seg60], [seg60], [seg60]]
   \<and> length seg60 = 60"
  unfolding seg60_def by code_simp

text \<open>
  C7, amended. For three segments of length 60 and a budget of 100 characters the
  planner returns exactly three batches, one segment each in the input's order, and
  no batch exceeds the budget.
\<close>

theorem char_budget_three_segments:
  assumes "length texts = 3" and "\<forall>t \<in> set texts. length t = 60"
  shows "createCharacterBasedBatches texts 100 balanced = map (\<lambda>t. [t]) texts
    \<and> length (createCharacterBasedBatches texts 100 balanced) = 3
    \<and> (\<forall>b \<in> set (createCharacterBasedBatches texts 100 balanced). sum_list (map length b) \<le> 100)"
proof -
  from assms(1) obtain a b c where t: "texts = [a, b, c]"
    by (metis (no_types) length_0_conv length_Suc_conv numeral_3_eq_3)
  with assms(2) have l: "length a = 60" "length b = 60" "length c = 60" by auto
  have "createCharacterBasedBatches texts 100 balanced = [[a], [b], [c]]"
    by (simp add: t l createCharacterBasedBatches_def ceil_div_def char_step_def init_acc_def
        close_batch_def push_text_def finish_acc_def Let_def)
  then show ?thesis using t l by simp
qed

theorem char_budget_three_segments_witness:
  "length [seg60, seg60, seg60] = 3 \<and> length seg60 = 60
   \<and> createCharacterBasedBatches [seg60, seg60, seg60] 100 True = [[seg60], [seg60], [seg60]]"
proof -
  have l: "length seg60 = 60" by (simp add: seg60_def)
  then show ?thesis
    using char_budget_three_segments [of "[seg60, seg60, seg60]" True] by simp
qed

section \<open>The payload of a text with an empty line\<close>


text \<open>
  This does not depend on how the texts were expanded: every placeholder among the
  expanded texts is an empty string of the payload.
\<close>

lemma placeholder_is_sent_empty:
  "EMPTY_LINE \<in> set expanded \<Longrightarrow>
   TextEntry [] \<in> set (jsonPayload (filteredExpandedTexts expanded))"
proof -
  assume a: "EMPTY_LINE \<in> set expanded"
  then have m: "[] \<in> set (filteredExpandedTexts expanded)"
    by (force simp: filteredExpandedTexts_def)
  show ?thesis
  proof (cases "length (filteredExpandedTexts expanded) = 1")
    case True
    then obtain x where x: "filteredExpandedTexts expanded = [x]"
      by (metis One_nat_def length_0_conv length_Suc_conv)
    with m show ?thesis by (simp add: jsonPayload_def)
  next
    case False
    with m show ?thesis by (simp add: jsonPayload_def)
  qed
qed

section \<open>Positional recovery of a batch response\<close>

lemma length_fallbackParsing:
  "length originalBatch = n \<Longrightarrow> length (fallbackParsing result n originalBatch) = n"
  by (simp add: fallbackParsing_def Let_def)

lemma length_sorted_texts: "length (sorted_texts items) = length items"
  by (simp add: sorted_texts_def)

lemma map_nth_from: "map ((!) xs) [a ..< length xs] = drop a xs"
proof -
  have "drop a xs = drop a (map ((!) xs) [0 ..< length xs])" by (simp only: map_nth)
  also have "\<dots> = map ((!) xs) [a ..< length xs]" by (simp add: drop_map)
  finally show ?thesis by simp
qed

lemma pad_eq_drop:
  assumes "length ts \<le> n" "length originalBatch = n"
  shows "pad_with_originals ts n originalBatch = ts @ drop (length ts) originalBatch"
proof -
  have "map (\<lambda>k. if k < length originalBatch then originalBatch ! k else [])
          [length ts ..< n] = map ((!) originalBatch) [length ts ..< n]"
    using assms by (intro map_cong) auto
  also have "\<dots> = drop (length ts) originalBatch"
    using assms(2) map_nth_from [of originalBatch "length ts"] by simp
  finally show ?thesis by (simp add: pad_with_originals_def)
qed

text \<open>
  C8, as stated, fails when an entry in the middle is missing. For a batch of three
  the response holds the items with the ids 2 and 0. By their ids the result would be
  the first translation, the second original text, and the third translation; the
  source sorts the two translations and pads at the end, so the translation of the
  third text stands at the second position and the third text stays untranslated.
\<close>

theorem recovery_counterexample:
  "parseBatchResult (ObjArray items_0_2) ''raw'' 3 [''a'', ''b'', ''c''] = [''A'', ''C'', ''c'']
   \<and> recover_by_id items_0_2 3 [''a'', ''b'', ''c''] = [''A'', ''b'', ''C'']"
  by (simp add: parseBatchResult_def items_0_2_def sorted_texts_def pad_with_originals_def
      recover_by_id_def upt_rec)

text \<open>
  C8, amended. Let the response parse to an array of \<^verbatim>\<open>{ id, text }\<close> objects whose length
  is not the batch size. Then the result has as many entries as the batch. With too
  many items, the result is the texts of the first batch-size items of the response,
  ordered by id; the items behind them are discarded before the sort. With too few
  items (and at least one), the result is the texts of all items, ordered by id,
  followed by the original texts of the positions that are left at the end, whichever
  ids are absent. The empty array is not taken as a structured list
  (\<^verbatim>\<open>typeof parsed[0] === 'object'\<close> fails) and goes to the line-splitting fallback, which
  returns as many entries as the batch as well; so the count test of \<^verbatim>\<open>_translateBatch\<close>
  never turns such a response into a failure.
\<close>

theorem positional_recovery:
  assumes "length originalBatch = n" and "length items \<noteq> n"
  shows "length (parseBatchResult (ObjArray items) result n originalBatch) = n
    \<and> (n < length items \<longrightarrow>
          parseBatchResult (ObjArray items) result n originalBatch
            = map item_text (sort_key item_id (take n items))
          \<and> sorted (map item_id (sort_key item_id (take n items))))
    \<and> (items \<noteq> [] \<and> length items < n \<longrightarrow>
          parseBatchResult (ObjArray items) result n originalBatch
            = map item_text (sort_key item_id items) @ drop (length items) originalBatch
          \<and> sorted (map item_id (sort_key item_id items)))"
proof (intro conjI impI)
  show "length (parseBatchResult (ObjArray items) result n originalBatch) = n"
  proof (cases "items = []")
    case True
    then show ?thesis using assms(1) by (simp add: parseBatchResult_def length_fallbackParsing)
  next
    case False
    show ?thesis
    proof (cases "n < length items")
      case True
      with False assms show ?thesis
        by (simp add: parseBatchResult_def length_sorted_texts)
    next
      case False
      with assms have lt: "length items < n" by simp
      then have "length (sorted_texts items) \<le> n" by (simp add: length_sorted_texts)
      from pad_eq_drop [OF this assms(1)] \<open>items \<noteq> []\<close> lt assms show ?thesis
        by (simp add: parseBatchResult_def length_sorted_texts)
    qed
  qed
next
  assume "n < length items"
  then show "parseBatchResult (ObjArray items) result n originalBatch
      = map item_text (sort_key item_id (take n items))"
    by (auto simp: parseBatchResult_def sorted_texts_def)
next
  show "sorted (map item_id (sort_key item_id (take n items)))" by (rule sorted_sort_key)
next
  assume a: "items \<noteq> [] \<and> length items < n"
  then have "length (sorted_texts items) \<le> n" by (simp add: length_sorted_texts)
  from pad_eq_drop [OF this assms(1)] a
  show "parseBatchResult (ObjArray items) result n originalBatch
      = map item_text (sort_key item_id items) @ drop (length items) originalBatch"
    by (simp add: parseBatchResult_def sorted_texts_def)
next
  show "sorted (map item_id (sort_key item_id items))" by (rule sorted_sort_key)
qed

theorem positional_recovery_witness:
  "length [''a'', ''b'', ''c''] = 3 \<and> length items_0_2 \<noteq> 3 \<and> items_0_2 \<noteq> [] \<and> length items_0_2 < 3
   \<and> parseBatchResult (ObjArray items_0_2) ''raw'' 3 [''a'', ''b'', ''c''] = [''A'', ''C'', ''c'']
   \<and> length [''a'', ''b''] = 2 \<and> length items_extra \<noteq> 2 \<and> 2 < length items_extra
   \<and> parseBatchResult (ObjArray items_extra) ''raw'' 2 [''a'', ''b''] = [''A'', ''B'']"
  using positional_recovery [of "[''a'', ''b'', ''c'']" 3 items_0_2 "''raw''"]
    positional_recovery [of "[''a'', ''b'']" 2 items_extra "''raw''"]
  by (simp add: items_0_2_def items_extra_def)

section \<open>The streaming loop: cancellation and failure\<close>

subsection \<open>The batches that pass\<close>

text \<open>
  As long as the batches pass, the loop adds their events and results and goes on
  with the batches behind them.
\<close>

lemma stream_loop_prefix:
  "reaches env idx bs n \<Longrightarrow>
   stream_loop env idx bs acc =
     (events_before env idx bs n
        @ fst (stream_loop env (idx + n) (drop n bs) (acc @ results_before env idx bs n)),
      snd (stream_loop env (idx + n) (drop n bs) (acc @ results_before env idx bs n)))"
proof (induction env idx bs n arbitrary: acc rule: reaches.induct)
  case (1 env idx bs)
  then show ?case by simp
next
  case (2 env idx n)
  then show ?case by simp
next
  case (3 env idx b rest n)
  from "3.prems" have ok: "batch_ok env idx b" and r: "reaches env (Suc idx) rest n" by auto
  from ok obtain evs res where tb: "translateBatch env idx b = (evs, Inr res)"
    by (cases "translateBatch env idx b"; cases "snd (translateBatch env idx b)")
       (auto simp: batch_ok_def)
  from ok have nc: "\<not> aborted env idx" "\<not> isCancelled env idx" by (auto simp: batch_ok_def)
  have be: "batch_events env idx b = Dispatch idx # evs @ emit env (StreamUpdate idx True res b None)"
    by (simp add: batch_events_def tb)
  have br: "batch_results env idx b = res" by (simp add: batch_results_def tb)
  from "3.IH" [OF r, of "acc @ res"]
  show ?case
    by (simp add: tb nc be br split: prod.splits)
qed

subsection \<open>The shape of the events\<close>

text \<open>
  \<^verbatim>\<open>_translateBatch\<close> sends per-item updates of the fallback only; with the dispatch and
  the update of the whole batch these are the events of a batch that passes. None of
  them is a failure update or a stream end, and the dispatches are those of the
  batches that passed.
\<close>

lemma fallback_loop_events:
  "ev \<in> set (fst (fallback_loop env k i ts rs)) \<Longrightarrow>
   \<exists>j x orig. ev = Send (StreamUpdate j True [x] [orig] None)"
proof (induction ts arbitrary: i rs)
  case Nil
  then show ?case by simp
next
  case (Cons t ts)
  show ?case
  proof (cases "fallbackAborted env k i")
    case True
    with Cons.prems show ?thesis by simp
  next
    case False
    show ?thesis
    proof (cases "translateSingle env k (Fallback i) t")
      case (Inl e)
      with False Cons.prems show ?thesis by simp
    next
      case (Inr result)
      with False Cons.prems
      have "ev \<in> set (emit env (StreamUpdate i True [or_original result t] [t] None))
          \<or> ev \<in> set (fst (fallback_loop env k (Suc i) ts (rs @ [or_original result t])))"
        by (auto simp: Let_def split: prod.splits)
      then show ?thesis
      proof
        assume "ev \<in> set (emit env (StreamUpdate i True [or_original result t] [t] None))"
        then show ?thesis by (auto simp: emit_def split: if_splits)
      next
        assume "ev \<in> set (fst (fallback_loop env k (Suc i) ts (rs @ [or_original result t])))"
        then show ?thesis by (rule Cons.IH)
      qed
    qed
  qed
qed

lemma translateBatch_events:
  "ev \<in> set (fst (translateBatch env k batch)) \<Longrightarrow>
   \<exists>j x orig. ev = Send (StreamUpdate j True [x] [orig] None)"
  using fallback_loop_events [of ev env k 0 batch "[]"]
  by (auto simp: translateBatch_def fallbackSingleRequests_def Let_def split: if_splits sum.splits)

lemma batch_events_cases:
  assumes "ev \<in> set (batch_events env k batch)"
  shows "ev = Dispatch k \<or> (\<exists>j d od. ev = Send (StreamUpdate j True d od None))"
proof (cases "translateBatch env k batch")
  case (Pair evs r)
  show ?thesis
  proof (cases r)
    case (Inl e)
    with Pair assms show ?thesis by (simp add: batch_events_def)
  next
    case (Inr res)
    with Pair assms have "ev = Dispatch k \<or> ev \<in> set evs
        \<or> ev \<in> set (emit env (StreamUpdate k True res batch None))"
      by (auto simp: batch_events_def)
    moreover have "ev \<in> set evs \<Longrightarrow> ?thesis"
      using translateBatch_events [of ev env k batch] Pair by auto
    moreover have "ev \<in> set (emit env (StreamUpdate k True res batch None)) \<Longrightarrow> ?thesis"
      by (auto simp: emit_def split: if_splits)
    ultimately show ?thesis by blast
  qed
qed

lemma events_before_cases:
  "ev \<in> set (events_before env idx bs n) \<Longrightarrow>
   (\<exists>j. ev = Dispatch j \<and> idx \<le> j \<and> j < idx + n)
   \<or> (\<exists>j d od. ev = Send (StreamUpdate j True d od None))"
proof (induction env idx bs n rule: events_before.induct)
  case (1 env idx bs)
  then show ?case by simp
next
  case (2 env idx n)
  then show ?case by simp
next
  case (3 env idx b rest n)
  from "3.prems" have "ev \<in> set (batch_events env idx b) \<or> ev \<in> set (events_before env (Suc idx) rest n)"
    by auto
  then show ?case
  proof
    assume "ev \<in> set (batch_events env idx b)"
    from batch_events_cases [OF this] show ?thesis by auto
  next
    assume "ev \<in> set (events_before env (Suc idx) rest n)"
    from "3.IH" [OF this] show ?thesis by auto
  qed
qed

subsection \<open>The batches behind the last one that is reached do not matter\<close>

lemma reaches_append: "n \<le> length xs \<Longrightarrow> reaches env idx (xs @ ys) n = reaches env idx xs n"
  by (induction env idx xs n rule: reaches.induct) auto

lemma events_before_append:
  "n \<le> length xs \<Longrightarrow> events_before env idx (xs @ ys) n = events_before env idx xs n"
  by (induction env idx xs n rule: events_before.induct) auto

lemma results_before_append:
  "n \<le> length xs \<Longrightarrow> results_before env idx (xs @ ys) n = results_before env idx xs n"
  by (induction env idx xs n rule: results_before.induct) auto

lemma nth_take_append: "k < length bl \<Longrightarrow> (take (Suc k) bl @ rest) ! k = bl ! k"
  by (simp add: nth_append)

subsection \<open>The two ways the loop stops early\<close>

lemma stream_loop_cancelled:
  "bs \<noteq> [] \<Longrightarrow> aborted env idx \<or> isCancelled env idx \<Longrightarrow>
   stream_loop env idx bs acc = ([], Inl UserCancelled)"
  by (cases bs) auto

lemma stream_loop_failed:
  "\<not> aborted env idx \<Longrightarrow> \<not> isCancelled env idx \<Longrightarrow> translateBatch env idx b = (evs, Inl e) \<Longrightarrow>
   stream_loop env idx (b # rest) acc =
     (Dispatch idx # evs @ emit env (StreamUpdate idx False [] [] (Some e)) @ emit env (StreamEnd False), Inl e)"
  by simp

lemma run_cancelled:
  assumes "k < length bl" "reaches env 0 bl k" "aborted env k \<or> isCancelled env k"
  shows "streamingBatchTranslate env bl = (events_before env 0 bl k, Inl UserCancelled)"
proof -
  from assms(1) have ne: "drop k bl \<noteq> []" by simp
  show ?thesis
    unfolding streamingBatchTranslate_def
    using stream_loop_prefix [OF assms(2), of "[]"] stream_loop_cancelled [OF ne, of env k] assms(3)
    by simp
qed

lemma run_failed:
  assumes "k < length bl" "reaches env 0 bl k" "\<not> aborted env k" "\<not> isCancelled env k"
    "translateBatch env k (bl ! k) = (evs, Inl e)"
  shows "streamingBatchTranslate env bl =
     (events_before env 0 bl k @ Dispatch k # evs
        @ emit env (StreamUpdate k False [] [] (Some e)) @ emit env (StreamEnd False), Inl e)"
proof -
  from assms(1) have d: "drop k bl = bl ! k # drop (Suc k) bl" by (simp add: Cons_nth_drop_Suc)
  show ?thesis
    unfolding streamingBatchTranslate_def
    using stream_loop_prefix [OF assms(2), of "[]"]
      stream_loop_failed [OF assms(3,4,5), of "drop (Suc k) bl"]
    by (simp add: d)
qed

text \<open>
  A batch fails for good when its combined request fails and the fallback request of
  one of its items fails as well.
\<close>

lemma fallback_loop_item_fails:
  "m < length ts \<Longrightarrow> isl (translateSingle env k (Fallback (i + m)) (ts ! m)) \<Longrightarrow>
   isl (snd (fallback_loop env k i ts rs))"
proof (induction ts arbitrary: i m rs)
  case Nil
  then show ?case by simp
next
  case (Cons t ts)
  show ?case
  proof (cases m)
    case 0
    with Cons.prems show ?thesis
      by (auto simp: Let_def split: sum.splits prod.splits)
  next
    case (Suc m')
    with Cons.prems have "m' < length ts" "isl (translateSingle env k (Fallback (Suc i + m')) (ts ! m'))"
      by auto
    from Cons.IH [OF this] have ih: "isl (snd (fallback_loop env k (Suc i) ts rs'))" for rs' .
    show ?thesis
    proof (cases "fallbackAborted env k i")
      case True
      then show ?thesis by simp
    next
      case False
      show ?thesis
      proof (cases "translateSingle env k (Fallback i) t")
        case (Inl e)
        with False show ?thesis by simp
      next
        case (Inr result)
        with False ih [of "rs @ [or_original result t]"] show ?thesis
          by (cases "fallback_loop env k (Suc i) ts (rs @ [or_original result t])") (simp add: Let_def)
      qed
    qed
  qed
qed

lemma irrecoverable_failure:
  assumes "length batch \<noteq> 1"
    and "isl (translateSingle env k Combined (buildBatchPrompt env batch))"
    and "m < length batch" and "isl (translateSingle env k (Fallback m) (batch ! m))"
  shows "isl (snd (translateBatch env k batch))"
  using assms fallback_loop_item_fails [of m batch env k 0 "[]"]
  by (auto simp: translateBatch_def fallbackSingleRequests_def split: sum.splits)

text \<open>Unfolding the run on a concrete input.\<close>

lemmas eval_stream = streamingBatchTranslate_def translateBatch_def fallbackSingleRequests_def
  emit_def or_original_def batch_ok_def batch_events_def env_base_def env_cancel_at_1_def
  env_fail_item_def Let_def

subsection \<open>Cancellation before a batch\<close>

text \<open>
  C5, as stated, fails where an earlier batch went through the per-segment fallback:
  \<^verbatim>\<open>_streamFallbackResult\<close> puts the item's index within its batch into the field
  \<^verbatim>\<open>batchIndex\<close>. Batch 0 has two texts, its combined request fails, and the engine
  reports the cancellation before batch 1. Batch 1 is never dispatched, yet an update
  with \<^verbatim>\<open>batchIndex = 1\<close> was sent: the one of item 1 of batch 0.
\<close>

theorem cancellation_counterexample:
  "streamingBatchTranslate env_cancel_at_1 [[''a'', ''b''], [''c'']] =
     ([Dispatch 0,
       Send (StreamUpdate 0 True [''T-a''] [''a''] None),
       Send (StreamUpdate 1 True [''T-b''] [''b''] None),
       Send (StreamUpdate 0 True [''T-a'', ''T-b''] [''a'', ''b''] None)],
      Inl UserCancelled)"
  by (simp add: eval_stream)

text \<open>
  C5, amended. The cancellation is checked before every batch. If it is observed at
  the check before batch \<open>k\<close>, the call ends with the cancellation error
  (\<^verbatim>\<open>USER_CANCELLED\<close>), not with a failure: no failure update and no stream end is sent.
  Batch \<open>k\<close> and the batches behind it are never dispatched, and nothing of them is in
  the events: the events are those of the batches before \<open>k\<close>, and the run is the same
  whatever the batches from \<open>k\<close> on are. (Nothing is said about the number in the
  field \<^verbatim>\<open>batchIndex\<close> of the per-item updates of an earlier batch's fallback.)
\<close>

theorem cancellation_cutoff:
  assumes "k < length batchList" and "reaches env 0 batchList k"
    and "aborted env k \<or> isCancelled env k"
  shows "streamingBatchTranslate env batchList = (events_before env 0 batchList k, Inl UserCancelled)
    \<and> (\<forall>j. k \<le> j \<longrightarrow> Dispatch j \<notin> set (fst (streamingBatchTranslate env batchList)))
    \<and> (\<forall>j d od er. Send (StreamUpdate j False d od er) \<notin> set (fst (streamingBatchTranslate env batchList)))
    \<and> (\<forall>s. Send (StreamEnd s) \<notin> set (fst (streamingBatchTranslate env batchList)))
    \<and> (\<forall>rest. rest \<noteq> [] \<longrightarrow>
          streamingBatchTranslate env (take k batchList @ rest) = streamingBatchTranslate env batchList)"
proof -
  have run: "streamingBatchTranslate env batchList = (events_before env 0 batchList k, Inl UserCancelled)"
    using assms by (rule run_cancelled)
  have shape: "\<And>ev. ev \<in> set (events_before env 0 batchList k) \<Longrightarrow>
      (\<exists>j. ev = Dispatch j \<and> j < k) \<or> (\<exists>j d od. ev = Send (StreamUpdate j True d od None))"
    using events_before_cases [of _ env 0 batchList k] by auto
  have other: "streamingBatchTranslate env (take k batchList @ rest) = streamingBatchTranslate env batchList"
    if "rest \<noteq> []" for rest
  proof -
    have len: "k \<le> length (take k batchList)" using assms(1) by simp
    have bl: "batchList = take k batchList @ drop k batchList" by simp
    have r0: "reaches env 0 (take k batchList) k"
      using assms(2) reaches_append [OF len, of env 0 "drop k batchList"] by simp
    then have r: "reaches env 0 (take k batchList @ rest) k"
      using reaches_append [OF len, of env 0 rest] by simp
    have "k < length (take k batchList @ rest)" using that assms(1) by (cases rest) auto
    from run_cancelled [OF this r assms(3)]
    have "streamingBatchTranslate env (take k batchList @ rest)
        = (events_before env 0 (take k batchList) k, Inl UserCancelled)"
      using events_before_append [OF len, of env 0 rest] by simp
    moreover have "events_before env 0 batchList k = events_before env 0 (take k batchList) k"
      using events_before_append [OF len, of env 0 "drop k batchList"] by simp
    ultimately show ?thesis using run by simp
  qed
  show ?thesis
  proof (intro conjI allI impI)
    show "streamingBatchTranslate env batchList = (events_before env 0 batchList k, Inl UserCancelled)"
      by (rule run)
  next
    fix j assume "k \<le> j"
    then show "Dispatch j \<notin> set (fst (streamingBatchTranslate env batchList))"
      using shape [of "Dispatch j"] by (auto simp: run)
  next
    fix j d od er
    show "Send (StreamUpdate j False d od er) \<notin> set (fst (streamingBatchTranslate env batchList))"
      using shape [of "Send (StreamUpdate j False d od er)"] by (auto simp: run)
  next
    fix s
    show "Send (StreamEnd s) \<notin> set (fst (streamingBatchTranslate env batchList))"
      using shape [of "Send (StreamEnd s)"] by (auto simp: run)
  next
    fix rest :: "string list list" assume "rest \<noteq> []"
    then show "streamingBatchTranslate env (take k batchList @ rest) = streamingBatchTranslate env batchList"
      by (rule other)
  qed
qed

theorem cancellation_cutoff_witness:
  "(1::nat) < length [[''a''], [''b'']] \<and> reaches env_cancel_at_1 0 [[''a''], [''b'']] 1
   \<and> isCancelled env_cancel_at_1 1
   \<and> streamingBatchTranslate env_cancel_at_1 [[''a''], [''b'']]
       = ([Dispatch 0, Send (StreamUpdate 0 True [''T-a''] [''a''] None)], Inl UserCancelled)"
  using cancellation_cutoff [of 1 "[[''a''], [''b'']]" env_cancel_at_1]
  by (simp add: eval_stream)

subsection \<open>A batch that fails for good\<close>

text \<open>
  C4, as stated, fails for the same reason: batch 0 has three texts, its combined
  request fails, the fallback translates items 0 and 1 and fails on item 2. Before
  the failure update of batch 0 an update with \<^verbatim>\<open>batchIndex = 1\<close> is sent, the one of
  item 1 of batch 0, although batch 1 is never dispatched.
\<close>

theorem fail_fast_counterexample:
  "streamingBatchTranslate (env_fail_item 0 2) [[''a'', ''b'', ''c''], [''d'']] =
     ([Dispatch 0,
       Send (StreamUpdate 0 True [''T-a''] [''a''] None),
       Send (StreamUpdate 1 True [''T-b''] [''b''] None),
       Send (StreamUpdate 0 False [] [] (Some BackendFailure)),
       Send (StreamEnd False)],
      Inl BackendFailure)"
  by (simp add: eval_stream)

text \<open>
  C4, amended. If the batch \<open>k\<close> that the loop has reached fails for good
  (\<^verbatim>\<open>_translateBatch\<close> throws: a batch of one text whose request fails, or a combined
  request and then a fallback item that fail), the loop sends the update with
  \<^verbatim>\<open>success = false\<close> and the index \<open>k\<close>, then the stream end with the error flag (both
  when a tab listens), and throws the batch's error again. The only failure update
  is the one of batch \<open>k\<close>, no batch behind \<open>k\<close> is dispatched, and the run is the same
  whatever the batches behind \<open>k\<close> are, so also if all of them would have succeeded.
  (Nothing is said about the number in the field \<^verbatim>\<open>batchIndex\<close> of the per-item updates
  of a fallback.)
\<close>

theorem fail_fast:
  assumes "k < length batchList" and "reaches env 0 batchList k"
    and "\<not> aborted env k" and "\<not> isCancelled env k"
    and "translateBatch env k (batchList ! k) = (evs, Inl e)"
  shows "streamingBatchTranslate env batchList =
           (events_before env 0 batchList k @ Dispatch k # evs
              @ emit env (StreamUpdate k False [] [] (Some e)) @ emit env (StreamEnd False), Inl e)
    \<and> (hasSender env \<longrightarrow> (\<exists>pre. fst (streamingBatchTranslate env batchList)
            = pre @ [Send (StreamUpdate k False [] [] (Some e)), Send (StreamEnd False)]))
    \<and> (\<forall>j. k < j \<longrightarrow> Dispatch j \<notin> set (fst (streamingBatchTranslate env batchList)))
    \<and> (\<forall>j d od er. Send (StreamUpdate j False d od er) \<in> set (fst (streamingBatchTranslate env batchList))
          \<longrightarrow> j = k)
    \<and> (\<forall>rest. streamingBatchTranslate env (take (Suc k) batchList @ rest)
          = streamingBatchTranslate env batchList)"
proof -
  let ?tail = "Dispatch k # evs @ emit env (StreamUpdate k False [] [] (Some e)) @ emit env (StreamEnd False)"
  have run: "streamingBatchTranslate env batchList = (events_before env 0 batchList k @ ?tail, Inl e)"
    using assms by (rule run_failed)
  have shape: "\<And>ev. ev \<in> set (events_before env 0 batchList k) \<Longrightarrow>
      (\<exists>j. ev = Dispatch j \<and> j < k) \<or> (\<exists>j d od. ev = Send (StreamUpdate j True d od None))"
    using events_before_cases [of _ env 0 batchList k] by auto
  have evs: "\<And>ev. ev \<in> set evs \<Longrightarrow> \<exists>j x orig. ev = Send (StreamUpdate j True [x] [orig] None)"
    using translateBatch_events [of _ env k "batchList ! k"] assms(5) by simp
  have tail: "\<And>ev. ev \<in> set ?tail \<Longrightarrow>
      ev = Dispatch k \<or> (\<exists>j d od. ev = Send (StreamUpdate j True d od None))
      \<or> ev = Send (StreamUpdate k False [] [] (Some e)) \<or> ev = Send (StreamEnd False)"
    using evs by (auto simp: emit_def split: if_splits)
  have other: "streamingBatchTranslate env (take (Suc k) batchList @ rest) = streamingBatchTranslate env batchList"
    for rest
  proof -
    let ?xs = "take (Suc k) batchList"
    have len: "k \<le> length ?xs" using assms(1) by simp
    have bl: "batchList = ?xs @ drop (Suc k) batchList" by simp
    have r0: "reaches env 0 ?xs k"
      using assms(2) reaches_append [OF len, of env 0 "drop (Suc k) batchList"] by simp
    then have r: "reaches env 0 (?xs @ rest) k"
      using reaches_append [OF len, of env 0 rest] by simp
    have lt: "k < length (?xs @ rest)" using assms(1) by simp
    have nth: "translateBatch env k ((?xs @ rest) ! k) = (evs, Inl e)"
      using assms(1,5) by (simp add: nth_take_append)
    from run_failed [OF lt r assms(3,4) nth]
    have "streamingBatchTranslate env (?xs @ rest) = (events_before env 0 ?xs k @ ?tail, Inl e)"
      using events_before_append [OF len, of env 0 rest] by simp
    moreover have "events_before env 0 batchList k = events_before env 0 ?xs k"
      using events_before_append [OF len, of env 0 "drop (Suc k) batchList"] by simp
    ultimately show ?thesis using run by simp
  qed
  show ?thesis
  proof (intro conjI allI impI)
    show "streamingBatchTranslate env batchList = (events_before env 0 batchList k @ ?tail, Inl e)"
      by (rule run)
  next
    assume "hasSender env"
    then have "fst (streamingBatchTranslate env batchList)
        = (events_before env 0 batchList k @ Dispatch k # evs)
          @ [Send (StreamUpdate k False [] [] (Some e)), Send (StreamEnd False)]"
      by (simp add: run emit_def)
    then show "\<exists>pre. fst (streamingBatchTranslate env batchList)
        = pre @ [Send (StreamUpdate k False [] [] (Some e)), Send (StreamEnd False)]" by blast
  next
    fix j assume "k < j"
    then show "Dispatch j \<notin> set (fst (streamingBatchTranslate env batchList))"
      using shape [of "Dispatch j"] tail [of "Dispatch j"] by (auto simp: run)
  next
    fix j d od er
    assume "Send (StreamUpdate j False d od er) \<in> set (fst (streamingBatchTranslate env batchList))"
    then show "j = k"
      using shape [of "Send (StreamUpdate j False d od er)"] tail [of "Send (StreamUpdate j False d od er)"]
      by (auto simp: run)
  next
    fix rest
    show "streamingBatchTranslate env (take (Suc k) batchList @ rest) = streamingBatchTranslate env batchList"
      by (rule other)
  qed
qed

theorem fail_fast_witness:
  "(1::nat) < length [[''a''], [''b'', ''c''], [''d'']]
   \<and> reaches (env_fail_item 1 1) 0 [[''a''], [''b'', ''c''], [''d'']] 1
   \<and> \<not> aborted (env_fail_item 1 1) 1 \<and> \<not> isCancelled (env_fail_item 1 1) 1
   \<and> translateBatch (env_fail_item 1 1) 1 ([[''a''], [''b'', ''c''], [''d'']] ! 1)
       = ([Send (StreamUpdate 0 True [''T-b''] [''b''] None)], Inl BackendFailure)
   \<and> hasSender (env_fail_item 1 1)
   \<and> streamingBatchTranslate (env_fail_item 1 1) [[''a''], [''b'', ''c''], [''d'']]
       = ([Dispatch 0, Send (StreamUpdate 0 True [''T-a''] [''a''] None),
           Dispatch 1, Send (StreamUpdate 0 True [''T-b''] [''b''] None),
           Send (StreamUpdate 1 False [] [] (Some BackendFailure)), Send (StreamEnd False)],
          Inl BackendFailure)"
  using fail_fast [of 1 "[[''a''], [''b'', ''c''], [''d'']]" "env_fail_item 1 1"
      "[Send (StreamUpdate 0 True [''T-b''] [''b''] None)]" BackendFailure]
  by (simp add: eval_stream)

section \<open>The authority of a new translation over the one a node carries\<close>


















section \<open>The minimum-content test of a streamed segment\<close>

lemma process_segment_applied_ok:
  assumes "applied_ok request st"
  shows "applied_ok request (process_segment isPartial request st seg)"
proof (cases seg)
  case (Pair tt ot)
  show ?thesis
    using assms unfolding applied_ok_def process_segment_def Pair
    by (auto simp: Let_def hasMinimumContent_def split: option.splits if_splits)
qed

lemma foldl_applied_ok:
  "applied_ok request st \<Longrightarrow> applied_ok request (foldl (process_segment isPartial request) st segs)"
  by (induction segs arbitrary: st) (simp_all add: process_segment_applied_ok)

lemma processStream_applied_ok:
  "applied_ok request (processStreamTranslationData isPartial request segments tb ob)"
  unfolding processStreamTranslationData_def
  by (rule foldl_applied_ok) (simp add: applied_ok_def)

text \<open>A segment that is too short for every unit leaves the map as it is.\<close>

lemma process_segment_not_applied:
  assumes "\<forall>otk \<in> set (textsToTranslate request). 10 * length (trim (fst seg)) \<le> length (trim otk)"
  shows "newlyApplied (process_segment isPartial request st seg) = newlyApplied st"
proof (cases seg)
  case (Pair tt ot)
  have "\<not> hasMinimumContent tt otk" if "nth_opt (textsToTranslate request) j = Some otk" for j otk
  proof -
    from that have "otk \<in> set (textsToTranslate request)"
      by (auto simp: nth_opt_def split: if_splits)
    with assms Pair have "10 * length (trim tt) \<le> length (trim otk)" by auto
    then show ?thesis by (simp add: hasMinimumContent_def)
  qed
  then show ?thesis
    unfolding process_segment_def Pair
    by (auto simp: Let_def split: option.splits)
qed

lemma foldl_not_applied:
  "\<forall>seg \<in> set segs. \<forall>otk \<in> set (textsToTranslate request).
      10 * length (trim (fst seg)) \<le> length (trim otk) \<Longrightarrow>
   newlyApplied (foldl (process_segment isPartial request) st segs) = newlyApplied st"
  by (induction segs arbitrary: st) (simp_all add: process_segment_not_applied)

text \<open>
  Beside the map of the translations to apply, the request keeps every segment of
  the update whose original text is among the expanded texts, for the reassembly at
  the end of the stream; this store stands before the minimum-content test.
\<close>

lemma segment_kept_for_reassembly:
  "find_index ot (expandedTexts request) = Some ei \<Longrightarrow>
   translatedSegments (process_segment isPartial request st (tt, Some ot)) ei = Some tt"
  by (simp add: process_segment_def Let_def split: option.splits)

text \<open>
  C10. During streaming a segment of a stream update is entered among the
  translations that are applied to the text nodes only when its trimmed length is
  strictly greater than 10 percent of the trimmed length of the unit text it
  translates: every entry of the map of translations to apply belongs to a unit of
  the request and is longer than a tenth of that unit, both trimmed. A segment that
  is not longer than a tenth of its unit is skipped, it leaves the map as it was; a
  segment of a non-empty unit that is longer (and is no empty line) is entered under
  the unit's trimmed text. If no translation of the update is longer than a tenth of
  any unit of the request, the map stays empty and the text nodes are not touched by
  this update.
\<close>

theorem minimum_content_gate:
  "applied_ok request (processStreamTranslationData isPartial request segments translatedBatch originalBatch)
   \<and> (find_index ot (expandedTexts request) = Some ei
        \<and> nth_opt (originMapping request) ei = Some mi
        \<and> nth_opt (textsToTranslate request) (originalIndex mi) = Some otk
        \<and> 10 * length (trim tt) \<le> length (trim otk) \<longrightarrow>
        newlyApplied (process_segment isPartial request st (tt, Some ot)) = newlyApplied st)
   \<and> (find_index ot (expandedTexts request) = Some ei
        \<and> nth_opt (originMapping request) ei = Some mi \<and> \<not> isEmptyLine mi
        \<and> nth_opt (textsToTranslate request) (originalIndex mi) = Some otk \<and> otk \<noteq> []
        \<and> 10 * length (trim tt) > length (trim otk) \<longrightarrow>
        (\<exists>td. newlyApplied (process_segment isPartial request st (tt, Some ot)) (trim otk) = Some td
              \<and> td_text td = tt))
   \<and> ((\<forall>t \<in> set translatedBatch. \<forall>otk \<in> set (textsToTranslate request).
          10 * length (trim t) \<le> length (trim otk)) \<longrightarrow>
        \<not> applies_to_nodes
             (processStreamTranslationData isPartial request segments translatedBatch originalBatch))"
proof (intro conjI impI)
  show "applied_ok request (processStreamTranslationData isPartial request segments translatedBatch originalBatch)"
    by (rule processStream_applied_ok)
next
  assume "find_index ot (expandedTexts request) = Some ei
        \<and> nth_opt (originMapping request) ei = Some mi
        \<and> nth_opt (textsToTranslate request) (originalIndex mi) = Some otk
        \<and> 10 * length (trim tt) \<le> length (trim otk)"
  then show "newlyApplied (process_segment isPartial request st (tt, Some ot)) = newlyApplied st"
    by (simp add: process_segment_def hasMinimumContent_def Let_def)
next
  assume "find_index ot (expandedTexts request) = Some ei
        \<and> nth_opt (originMapping request) ei = Some mi \<and> \<not> isEmptyLine mi
        \<and> nth_opt (textsToTranslate request) (originalIndex mi) = Some otk \<and> otk \<noteq> []
        \<and> 10 * length (trim tt) > length (trim otk)"
  then show "\<exists>td. newlyApplied (process_segment isPartial request st (tt, Some ot)) (trim otk) = Some td
              \<and> td_text td = tt"
    by (simp add: process_segment_def hasMinimumContent_def Let_def)
next
  assume a: "\<forall>t \<in> set translatedBatch. \<forall>otk \<in> set (textsToTranslate request).
      10 * length (trim t) \<le> length (trim otk)"
  let ?segs = "map (\<lambda>i. (translatedBatch ! i, nth_opt originalBatch i)) [0 ..< length translatedBatch]"
  have "\<forall>seg \<in> set ?segs. \<forall>otk \<in> set (textsToTranslate request).
      10 * length (trim (fst seg)) \<le> length (trim otk)"
    using a by auto
  from foldl_not_applied [OF this]
  show "\<not> applies_to_nodes
      (processStreamTranslationData isPartial request segments translatedBatch originalBatch)"
    by (simp add: applies_to_nodes_def processStreamTranslationData_def)
qed

text \<open>
  The unit \<^verbatim>\<open>Good night\<close> has ten characters. The streamed translation \<^verbatim>\<open>G\<close> between two
  blanks has one character after trimming, exactly a tenth: it is skipped and the
  nodes are not touched. The translation \<^verbatim>\<open>Gu\<close> is longer than a tenth and is entered
  under \<^verbatim>\<open>Good night\<close>.
\<close>

theorem minimum_content_gate_witness:
  "find_index ''Good night'' (expandedTexts request_night) = Some 0
   \<and> nth_opt (originMapping request_night) 0 = Some \<lparr>originalIndex = 0, isEmptyLine = False\<rparr>
   \<and> nth_opt (textsToTranslate request_night) 0 = Some ''Good night''
   \<and> 10 * length (trim '' G '') = length (trim ''Good night'')
   \<and> 10 * length (trim ''Gu'') > length (trim ''Good night'')
   \<and> newlyApplied (process_segment never_partial request_night
         \<lparr>translatedSegments = Map.empty, newlyApplied = Map.empty\<rparr> ('' G '', Some ''Good night'')) = Map.empty
   \<and> (\<exists>td. newlyApplied (process_segment never_partial request_night
         \<lparr>translatedSegments = Map.empty, newlyApplied = Map.empty\<rparr> (''Gu'', Some ''Good night''))
           ''Good night'' = Some td \<and> td_text td = ''Gu'')
   \<and> \<not> applies_to_nodes
         (processStreamTranslationData never_partial request_night Map.empty ['' G ''] [''Good night''])"
  using minimum_content_gate [of request_night never_partial Map.empty "['' G '']" "[''Good night'']"
      "''Good night''" 0
      "\<lparr>originalIndex = 0, isEmptyLine = False\<rparr>" "''Good night''" "'' G ''"
      "\<lparr>translatedSegments = Map.empty, newlyApplied = Map.empty\<rparr>"]
    minimum_content_gate [of request_night never_partial Map.empty "[]" "[]" "''Good night''" 0
      "\<lparr>originalIndex = 0, isEmptyLine = False\<rparr>" "''Good night''" "''Gu''"
      "\<lparr>translatedSegments = Map.empty, newlyApplied = Map.empty\<rparr>"]
  by (simp add: request_night_def nth_opt_def trim_def is_space_def)

end
